theory Spec2Isabelle
  imports Main "HOL-Library.Char_ord" "HOL-Library.List_Lexorder" "HOL-Library.AList"
    "HOL-Library.Multiset"
begin

section \<open>Strings and the library functions the package calls\<close>

text \<open>
  Go strings are byte sequences, modelled as \<open>string\<close> (a list of 8-bit characters).
  \<open>sort.Strings\<close> and map keys compare strings bytewise and lexicographically, which is
  the order of \<open>HOL-Library.List_Lexorder\<close> over \<open>HOL-Library.Char_ord\<close>.
\<close>

definition NL :: char where
  "NL = CHR 0x0A"

definition TAB :: char where
  "TAB = CHR 0x09"

text \<open>\<open>strings.Join(elems, sep)\<close>.\<close>

fun Join :: "string list \<Rightarrow> string \<Rightarrow> string" where
  "Join [] sep = []"
| "Join [x] sep = x"
| "Join (x # y # ys) sep = x @ sep @ Join (y # ys) sep"

text \<open>\<open>strings.TrimSuffix(s, suffix)\<close>: one occurrence of the suffix is removed.\<close>

definition TrimSuffix :: "string \<Rightarrow> string \<Rightarrow> string" where
  "TrimSuffix s suffix =
     (if length suffix \<le> length s \<and> drop (length s - length suffix) s = suffix
      then take (length s - length suffix) s else s)"

text \<open>
  \<open>strings.ReplaceAll(s, "\n", new)\<close>, the only use the package makes of it: every
  newline byte is replaced by \<open>new\<close>.
\<close>

definition ReplaceAll_NL :: "string \<Rightarrow> string \<Rightarrow> string" where
  "ReplaceAll_NL s new = concat (map (\<lambda>c. if c = NL then new else [c]) s)"

text \<open>
  \<open>strings.TrimSpace\<close> on ASCII text: tab, newline, vertical tab, form feed, carriage
  return and space are trimmed from both ends. (Unicode space characters outside ASCII,
  which are several bytes in UTF-8, are not part of this model.)
\<close>

definition isSpace :: "char \<Rightarrow> bool" where
  "isSpace c = (c = TAB \<or> c = NL \<or> c = CHR 0x0B \<or> c = CHR 0x0C \<or> c = CHR 0x0D \<or> c = CHR 0x20)"

definition TrimSpace :: "string \<Rightarrow> string" where
  "TrimSpace s = rev (dropWhile isSpace (rev (dropWhile isSpace s)))"

text \<open>
  The verb \<open>%q\<close> of \<open>fmt\<close> on a string (\<open>strconv.Quote\<close>), on ASCII text: the text in
  double quotes, with the quote and the backslash escaped, the control characters written as
  their escapes, and the remaining ones as \<open>\xNN\<close>. Bytes from 0x80 on are copied (as Go
  does for printable runes in valid UTF-8).
\<close>

definition hexdigit :: "nat \<Rightarrow> char" where
  "hexdigit n = (''0123456789abcdef'') ! (n mod 16)"

definition quoteChar :: "char \<Rightarrow> string" where
  "quoteChar c =
     (if c = CHR 0x22 then [CHR 0x5C, CHR 0x22]
      else if c = CHR 0x5C then [CHR 0x5C, CHR 0x5C]
      else if c = CHR 0x07 then [CHR 0x5C, CHR ''a'']
      else if c = CHR 0x08 then [CHR 0x5C, CHR ''b'']
      else if c = CHR 0x0C then [CHR 0x5C, CHR ''f'']
      else if c = NL then [CHR 0x5C, CHR ''n'']
      else if c = CHR 0x0D then [CHR 0x5C, CHR ''r'']
      else if c = TAB then [CHR 0x5C, CHR ''t'']
      else if c = CHR 0x0B then [CHR 0x5C, CHR ''v'']
      else if (of_char c :: nat) < 32 \<or> c = CHR 0x7F
        then [CHR 0x5C, CHR ''x'', hexdigit ((of_char c :: nat) div 16), hexdigit (of_char c)]
      else [c])"

definition Quote :: "string \<Rightarrow> string" where
  "Quote s = [CHR 0x22] @ concat (map quoteChar s) @ [CHR 0x22]"

text \<open>
  The verb \<open>%-Ns\<close> of \<open>fmt\<close>: the text, padded with spaces on the right up to the width.
  The width counts bytes here; \<open>fmt\<close> counts runes, which is the same on the ASCII names
  that registration accepts.
\<close>

definition padRight :: "int \<Rightarrow> string \<Rightarrow> string" where
  "padRight w s = s @ replicate (nat w - length s) (CHR 0x20)"

section \<open>Errors, outcomes, streams\<close>

text \<open>
  A Go \<open>error\<close> value: the sentinel \<open>flag.ErrHelp\<close>, or an error made by
  \<open>errors.New\<close> or \<open>fmt.Errorf\<close> with its message. The nil error is \<open>None\<close> of
  \<open>error option\<close>.
\<close>

datatype error = ErrHelp | ErrorString string

text \<open>
  How a call ends: it returns a value, it panics (the message is kept), or the process is
  ended by \<open>os.Exit\<close> with a status.
\<close>

datatype 'a outcome = Returned 'a | Panicked string | Exited int

text \<open>
  An \<open>io.Reader\<close> or \<open>io.Writer\<close> is known by its identity; the nil interface value is
  \<open>None\<close> of \<open>stream option\<close>.
\<close>

datatype stream = OsStdin | OsStdout | OsStderr | Stream nat

section \<open>The flag package, as far as the commands use it\<close>

text \<open>
  A \<open>flag.Value\<close> is modelled by its dynamic type and its contents. Three types are
  modelled: \<open>*flag.boolValue\<close> (what \<open>BoolVar\<close> defines), \<open>*flag.stringValue\<close> (what
  \<open>StringVar\<close> defines), and the type \<open>*stringValue\<close> that help.go declares in
  package commands itself. The last two are different Go types with the same methods.
\<close>

datatype Value = boolValue bool | flag_stringValue string | stringValue string

fun Value_String :: "Value \<Rightarrow> string" where
  "Value_String (boolValue b) = (if b then ''true'' else ''false'')"
| "Value_String (flag_stringValue s) = s"
| "Value_String (stringValue s) = s"

text \<open>\<open>strconv.ParseBool\<close>.\<close>

definition ParseBool :: "string \<Rightarrow> bool option" where
  "ParseBool s =
     (if s \<in> set [''1'', ''t'', ''T'', ''TRUE'', ''true'', ''True''] then Some True
      else if s \<in> set [''0'', ''f'', ''F'', ''FALSE'', ''false'', ''False''] then Some False
      else None)"

definition errParse :: error where
  "errParse = ErrorString ''parse error''"

definition error_text :: "error \<Rightarrow> string" where
  "error_text e = (case e of ErrHelp \<Rightarrow> ''flag: help requested'' | ErrorString m \<Rightarrow> m)"

text \<open>
  \<open>Set\<close>: the new contents and the error. A bool that fails to parse is left false, as
  \<open>boolValue.Set\<close> stores the result of \<open>ParseBool\<close> before it returns the error.
\<close>

fun Value_Set :: "Value \<Rightarrow> string \<Rightarrow> Value \<times> error option" where
  "Value_Set (boolValue b) s =
     (case ParseBool s of Some v \<Rightarrow> (boolValue v, None) | None \<Rightarrow> (boolValue False, Some errParse))"
| "Value_Set (flag_stringValue old) s = (flag_stringValue s, None)"
| "Value_Set (stringValue old) s = (stringValue s, None)"

text \<open>Whether the value implements \<open>boolFlag\<close> with \<open>IsBoolFlag() = true\<close>.\<close>

fun IsBoolFlag :: "Value \<Rightarrow> bool" where
  "IsBoolFlag (boolValue b) = True"
| "IsBoolFlag (flag_stringValue s) = False"
| "IsBoolFlag (stringValue s) = False"

record Flag =
  Flag_Name :: string
  Flag_Usage :: string
  Flag_Value :: Value
  DefValue :: string

datatype ErrorHandling = ContinueOnError | ExitOnError | PanicOnError

text \<open>
  A \<open>flag.FlagSet\<close>. \<open>formal\<close> is the map from names to flags, kept as the list of its
  flags (a name looks up the first flag that has it); \<open>actual\<close> holds the names of the
  flags that were set. The \<open>Usage\<close> field is not stored: Execute assigns it before every
  Parse, and the model passes the callback's effect to the place where it runs.
\<close>

record FlagSet =
  fs_name :: string
  errorHandling :: ErrorHandling
  formal :: "Flag list"
  actual :: "string list"
  args :: "string list"
  parsed :: bool
  fs_output :: "stream option"

definition NewFlagSet :: "string \<Rightarrow> ErrorHandling \<Rightarrow> FlagSet" where
  "NewFlagSet name eh =
     \<lparr>fs_name = name, errorHandling = eh, formal = [], actual = [], args = [],
      parsed = False, fs_output = None\<rparr>"

definition Lookup :: "FlagSet \<Rightarrow> string \<Rightarrow> Flag option" where
  "Lookup f name = find (\<lambda>fl. Flag_Name fl = name) (formal f)"

definition setFlagValue :: "FlagSet \<Rightarrow> string \<Rightarrow> Value \<Rightarrow> FlagSet" where
  "setFlagValue f name v =
     f\<lparr>formal := map (\<lambda>fl. if Flag_Name fl = name then fl\<lparr>Flag_Value := v\<rparr> else fl) (formal f)\<rparr>"

text \<open>
  What one step of the parser reports besides "seen": nothing, the help request (the usage
  callback runs and \<open>ErrHelp\<close> is returned), or a failure made by \<open>failf\<close> (the message is
  printed to the flag set's output, the usage callback runs, and an error with the message
  is returned).
\<close>

datatype parse_error = HelpRequested | Failed string

text \<open>
  The second half of \<open>FlagSet.parseOne\<close>, once the flag \<open>fl\<close> has been found under
  \<open>name\<close>: a bool flag needs no argument; any other flag takes the text after \<open>=\<close>
  or else the next argument. The value is set, and on success the name is recorded in
  \<open>actual\<close>.
\<close>

definition setFound :: "FlagSet \<Rightarrow> string \<Rightarrow> Flag \<Rightarrow> bool \<Rightarrow> string \<Rightarrow> bool \<times> FlagSet \<times> parse_error option" where
  "setFound f1 name fl hasValue0 value0 =
     (if IsBoolFlag (Flag_Value fl) then
        (if hasValue0 then
           (case Value_Set (Flag_Value fl) value0 of
              (v, Some err) \<Rightarrow>
                (False, setFlagValue f1 name v,
                 Some (Failed (''invalid boolean value '' @ Quote value0 @ '' for -'' @ name
                               @ '': '' @ error_text err)))
            | (v, None) \<Rightarrow>
                (True, (setFlagValue f1 name v)\<lparr>actual := actual f1 @ [name]\<rparr>, None))
         else
           (case Value_Set (Flag_Value fl) ''true'' of
              (v, Some err) \<Rightarrow>
                (False, setFlagValue f1 name v,
                 Some (Failed (''invalid boolean flag '' @ name @ '': '' @ error_text err)))
            | (v, None) \<Rightarrow>
                (True, (setFlagValue f1 name v)\<lparr>actual := actual f1 @ [name]\<rparr>, None)))
      else
        (case (if \<not> hasValue0 \<and> args f1 \<noteq> []
               then (True, hd (args f1), f1\<lparr>args := tl (args f1)\<rparr>)
               else (hasValue0, value0, f1)) of
           (hasValue, value, f2) \<Rightarrow>
             if \<not> hasValue
             then (False, f2, Some (Failed (''flag needs an argument: -'' @ name)))
             else
               (case Value_Set (Flag_Value fl) value of
                  (v, Some err) \<Rightarrow>
                    (False, setFlagValue f2 name v,
                     Some (Failed (''invalid value '' @ Quote value @ '' for flag -'' @ name
                                   @ '': '' @ error_text err)))
                | (v, None) \<Rightarrow>
                    (True, (setFlagValue f2 name v)\<lparr>actual := actual f2 @ [name]\<rparr>, None))))"

text \<open>
  \<open>FlagSet.parseOne\<close>. The name is what follows the one or two minus signs, up to the
  first \<open>=\<close> that is not its first byte.
\<close>

definition parseOne :: "FlagSet \<Rightarrow> bool \<times> FlagSet \<times> parse_error option" where
  "parseOne f =
     (case args f of
        [] \<Rightarrow> (False, f, None)
      | s # rest \<Rightarrow>
          if length s < 2 \<or> s ! 0 \<noteq> CHR ''-'' then (False, f, None)
          else if s ! 1 = CHR ''-'' \<and> length s = 2 then (False, f\<lparr>args := rest\<rparr>, None)
          else
            let numMinuses = (if s ! 1 = CHR ''-'' then 2 else 1 :: nat);
                name0 = drop numMinuses s
            in if name0 = [] \<or> hd name0 = CHR ''-'' \<or> hd name0 = CHR ''=''
               then (False, f, Some (Failed (''bad flag syntax: '' @ s)))
               else
                 let f1 = f\<lparr>args := rest\<rparr>;
                     hasValue0 = (CHR ''='' \<in> set (tl name0));
                     value0 = (if hasValue0 then tl (dropWhile (\<lambda>c. c \<noteq> CHR ''='') (tl name0)) else []);
                     name = (if hasValue0 then hd name0 # takeWhile (\<lambda>c. c \<noteq> CHR ''='') (tl name0)
                             else name0)
                 in (case Lookup f1 name of
                      None \<Rightarrow>
                        if name = ''help'' \<or> name = ''h'' then (False, f1, Some HelpRequested)
                        else (False, f1, Some (Failed (''flag provided but not defined: -'' @ name)))
                    | Some fl \<Rightarrow> setFound f1 name fl hasValue0 value0))"

text \<open>
  The loop of \<open>FlagSet.Parse\<close>: steps are taken while a flag is seen; the loop ends at the
  first non-flag argument (no error) or at the first error.
\<close>

function parseLoop :: "FlagSet \<Rightarrow> FlagSet \<times> parse_error option" where
  "parseLoop f =
     (case parseOne f of
        (True, f', e) \<Rightarrow> parseLoop f'
      | (False, f', e) \<Rightarrow> (f', e))"
  by pat_completeness auto
termination
  by (relation "measure (\<lambda>f. length (args f))")
     (auto simp: parseOne_def setFound_def setFlagValue_def Let_def
           split: list.splits if_splits option.splits prod.splits)

definition Parse_steps :: "FlagSet \<Rightarrow> string list \<Rightarrow> FlagSet \<times> parse_error option" where
  "Parse_steps f arguments = parseLoop (f\<lparr>parsed := True, args := arguments\<rparr>)"


text \<open>
  \<open>flag.UnquoteUsage\<close>: a name between the first two back quotes of the usage text is
  taken out of it; without one, the name is that of the value's type (empty for a bool
  flag, \<open>value\<close> for a type the switch does not list).
\<close>

definition backquote :: char where
  "backquote = CHR 0x60"

definition UnquoteUsage :: "Flag \<Rightarrow> string \<times> string" where
  "UnquoteUsage fl =
     (let usage = Flag_Usage fl;
          before = takeWhile (\<lambda>c. c \<noteq> backquote) usage;
          from_quote = dropWhile (\<lambda>c. c \<noteq> backquote) usage
      in if from_quote \<noteq> [] \<and> backquote \<in> set (tl from_quote)
         then (let name = takeWhile (\<lambda>c. c \<noteq> backquote) (tl from_quote)
               in (name, before @ name @ tl (dropWhile (\<lambda>c. c \<noteq> backquote) (tl from_quote))))
         else ((case Flag_Value fl of
                  boolValue b \<Rightarrow> []
                | flag_stringValue v \<Rightarrow> ''string''
                | stringValue v \<Rightarrow> ''value''), usage))"

section \<open>help.go: the flag lines\<close>

text \<open>
  \<open>isZeroValue\<close>: reflection builds the zero value of the flag's value type, and its
  \<open>String()\<close> is compared with the text passed in.
\<close>

fun zeroValue :: "Value \<Rightarrow> Value" where
  "zeroValue (boolValue b) = boolValue False"
| "zeroValue (flag_stringValue v) = flag_stringValue []"
| "zeroValue (stringValue v) = stringValue []"

definition isZeroValue :: "Flag \<Rightarrow> string \<Rightarrow> bool" where
  "isZeroValue fl value = (value = Value_String (zeroValue (Flag_Value fl)))"

text \<open>
  The type assertion \<open>fl.Value.(*stringValue)\<close> of flagHelp names the \<open>stringValue\<close>
  of package commands.
\<close>

fun is_stringValue :: "Value \<Rightarrow> bool" where
  "is_stringValue (stringValue v) = True"
| "is_stringValue (boolValue b) = False"
| "is_stringValue (flag_stringValue v) = False"

text \<open>
  The body of the closure that flagHelp passes to \<open>VisitAll\<close>: what one flag appends to
  the builder \<open>b\<close>, which all the flags share.
\<close>

definition flagLine :: "string \<Rightarrow> Flag \<Rightarrow> string" where
  "flagLine b fl =
     (let b1 = b @ ''  -'' @ Flag_Name fl;
          (name, usage) = UnquoteUsage fl;
          b2 = (if length name > 0 then b1 @ '' '' @ name else b1);
          b3 = (if length b2 \<le> 4 then b2 @ [TAB] else b2 @ ''    '' @ [TAB]);
          b4 = b3 @ ReplaceAll_NL usage ([NL] @ ''    '' @ [TAB]);
          b5 = (if \<not> isZeroValue fl (DefValue fl)
                then (if is_stringValue (Flag_Value fl)
                      then b4 @ '' (default '' @ Quote (DefValue fl) @ '')''
                      else b4 @ '' (default '' @ DefValue fl @ '')'')
                else b4)
      in b5 @ [NL])"

text \<open>\<open>VisitAll\<close> visits the flags in the order of their names.\<close>

definition flagHelp :: "FlagSet option \<Rightarrow> string" where
  "flagHelp fo =
     (case fo of
        None \<Rightarrow> []
      | Some f \<Rightarrow> foldl flagLine [] (sort_key Flag_Name (formal f)))"

section \<open>command.go: the command tree\<close>

definition ExitCodeSuccess :: int where "ExitCodeSuccess = 0"
definition ExitCodeFailure :: int where "ExitCodeFailure = 1"
definition ExitCodeSerious :: int where "ExitCodeSerious = 2"

text \<open>
  A \<open>*Command\<close> is an address; the nil pointer is \<open>None\<close> of \<open>addr option\<close>. A
  \<open>CommandFunc\<close> is modelled by what it returns for the streams and the parsed flag set
  that Execute hands it (the context and \<open>os.Getenv\<close> are the same at every call); what a
  handler itself does to the world is not part of this model.
\<close>

type_synonym addr = nat

type_synonym CommandFunc =
  "stream option \<Rightarrow> FlagSet \<Rightarrow> stream option \<Rightarrow> stream option \<Rightarrow> int \<times> error option"

text \<open>
  The struct \<open>Command\<close>. \<open>children\<close> is the map from names to children, kept as an
  association list (\<open>map_of\<close> looks a name up; the order of the list stands for the order in
  which \<open>range\<close> happens to yield the keys). A node holds its own flag set; two nodes that
  share one \<open>*flag.FlagSet\<close> are outside the model.
\<close>

record Command =
  Name :: string
  Func :: "CommandFunc option"
  Usage :: string
  Short :: string
  Long :: string
  Flags :: "FlagSet option"
  parent :: "addr option"
  children :: "(string \<times> addr) list"
  longestName :: int
  stdin :: "stream option"
  stdout :: "stream option"
  stderr :: "stream option"

text \<open>
  The world: the commands by address and what has been written to each writer. Two logs
  that are not in the source are kept beside them, to state which executions invoke a
  handler and which nodes an execution visits: \<open>invoked\<close> lists the handler calls
  Execute has made (the node and what its handler returned), and \<open>visited\<close> lists the
  nodes on which Execute has run past its two precondition checks.
\<close>

record world =
  cmds :: "addr \<Rightarrow> Command"
  written :: "stream \<Rightarrow> string"
  invoked :: "(addr \<times> int \<times> error option) list"
  visited :: "addr list"

definition nilDereference :: string where
  "nilDereference = ''runtime error: invalid memory address or nil pointer dereference''"

definition stackOverflow :: string where
  "stackOverflow = ''fatal error: stack overflow''"

text \<open>\<open>fmt.Fprint(w, text)\<close>: calling \<open>Write\<close> on the nil writer panics.\<close>

definition Fprint :: "world \<Rightarrow> stream option \<Rightarrow> string \<Rightarrow> unit outcome \<times> world" where
  "Fprint s w text =
     (case w of
        None \<Rightarrow> (Panicked nilDereference, s)
      | Some st \<Rightarrow> (Returned (), s\<lparr>written := (written s)(st := written s st @ text)\<rparr>))"

section \<open>help.go: rendering help\<close>

text \<open>
  \<open>getNames\<close> follows the parent pointers up to a node without parent; of the world it
  reads the commands only. On a cycle of
  parent pointers the recursion never returns (\<open>None\<close>); the Go runtime then ends the
  process when the stack is exhausted.
\<close>

partial_function (option) getNames :: "(addr \<Rightarrow> Command) \<Rightarrow> addr \<Rightarrow> string list option" where
  "getNames cs c =
     (case parent (cs c) of
        None \<Rightarrow> Some [Name (cs c)]
      | Some p \<Rightarrow> Option.bind (getNames cs p) (\<lambda>ns. Some (ns @ [Name (cs c)])))"

declare getNames.simps [code]

text \<open>
  One line of the commands block, for the key \<open>k\<close>. The keys are those of the map, so the
  lookup finds a child. Like \<open>getNames\<close>, the rendering reads the commands only.
\<close>

definition commandLine :: "(addr \<Rightarrow> Command) \<Rightarrow> Command \<Rightarrow> string \<Rightarrow> string" where
  "commandLine cs cmd k =
     (case map_of (children cmd) k of
        None \<Rightarrow> []
      | Some child \<Rightarrow>
          ''  '' @ padRight (longestName cmd) (Name (cs child)) @ '' ''
          @ TrimSuffix (Short (cs child)) ''.'' @ [NL])"

text \<open>The text that showHelp builds in \<open>result\<close>, given the names from root to node.\<close>

definition helpResult :: "(addr \<Rightarrow> Command) \<Rightarrow> addr \<Rightarrow> string list \<Rightarrow> string" where
  "helpResult cs c ns =
     (let cmd = cs c;
          names = Join ns '' '';
          r0 = Short cmd @ [NL, NL] @ ''Usage:'' @ [NL] @ ''  '' @ names;
          r1 = (if Usage cmd \<noteq> [] then r0 @ '' '' @ Usage cmd else r0);
          keys = map fst (children cmd);
          r2 = (if length keys > 0 then r1 @ '' <command>'' else r1);
          r3 = r2 @ [NL];
          help = flagHelp (Flags cmd);
          r4 = (if help \<noteq> [] then r3 @ [NL] @ ''Flags:'' @ [NL] @ help else r3);
          r5 = (if length keys > 0
                then foldl (\<lambda>r k. r @ commandLine cs cmd k)
                       (r4 @ [NL] @ ''Commands:'' @ [NL]) (sort keys)
                     @ [NL] @ ''Use '' @ [CHR 0x27] @ names @ '' help <command>'' @ [CHR 0x27]
                     @ '' for more information about a command.'' @ [NL]
                else r4);
          helpText = TrimSpace (Long cmd)
      in if helpText \<noteq> [] then r5 @ [NL] @ helpText @ [NL] else r5)"

definition helpText :: "world \<Rightarrow> addr \<Rightarrow> string option" where
  "helpText s c = map_option (helpResult (cmds s) c) (getNames (cmds s) c)"

definition showHelp :: "world \<Rightarrow> addr \<Rightarrow> unit outcome \<times> world" where
  "showHelp s c =
     (case helpText s c of
        None \<Rightarrow> (Panicked stackOverflow, s)
      | Some text \<Rightarrow> Fprint s (stdout (cmds s c)) text)"

text \<open>Sequencing: the rest runs only when the first step returned.\<close>

definition andThen :: "unit outcome \<times> world \<Rightarrow> (world \<Rightarrow> 'a outcome \<times> world) \<Rightarrow> 'a outcome \<times> world" where
  "andThen r k =
     (case r of
        (Returned u, s) \<Rightarrow> k s
      | (Panicked m, s) \<Rightarrow> (Panicked m, s)
      | (Exited n, s) \<Rightarrow> (Exited n, s))"

definition helpForCommand :: "world \<Rightarrow> addr \<Rightarrow> FlagSet \<Rightarrow> (int \<times> error option) outcome \<times> world" where
  "helpForCommand s c fl =
     (let args0 = args fl;
          args1 = (if length args0 > 0 \<and> args0 ! 0 = ''help'' then tl args0 else args0)
      in if length args1 > 2
         then andThen (showHelp s c)
                (\<lambda>s'. (Returned (ExitCodeSerious,
                                   Some (ErrorString ''can only give help with one command'')), s'))
         else if length args1 < 1
         then andThen (showHelp s c) (\<lambda>s'. (Returned (ExitCodeSuccess, None), s'))
         else
           (case map_of (children (cmds s c)) (args1 ! 0) of
              None \<Rightarrow>
                andThen (showHelp s c)
                  (\<lambda>s'. (Returned (ExitCodeSerious,
                                     Some (ErrorString (''unknown command: '' @ args1 ! 0))), s'))
            | Some subcommand \<Rightarrow>
                andThen (showHelp s subcommand) (\<lambda>s'. (Returned (ExitCodeSuccess, None), s'))))"


section \<open>command.go: Execute\<close>

text \<open>\<open>FlagSet.Output\<close>: the flag set's writer, \<open>os.Stderr\<close> when none was set.\<close>

definition Output :: "FlagSet \<Rightarrow> stream" where
  "Output f = (case fs_output f of None \<Rightarrow> OsStderr | Some w \<Rightarrow> w)"

definition parseError :: "parse_error \<Rightarrow> error" where
  "parseError pe = (case pe of HelpRequested \<Rightarrow> ErrHelp | Failed msg \<Rightarrow> ErrorString msg)"

text \<open>
  What the parser does when it meets an error, with the usage callback that Execute
  installed (\<open>showHelp(cmd)\<close>): \<open>failf\<close> prints the message and a newline to the flag
  set's output and calls the callback; the help request calls the callback only.
\<close>

definition reportParseError :: "world \<Rightarrow> addr \<Rightarrow> FlagSet \<Rightarrow> parse_error \<Rightarrow> unit outcome \<times> world" where
  "reportParseError s c f pe =
     (case pe of
        HelpRequested \<Rightarrow> showHelp s c
      | Failed msg \<Rightarrow> andThen (Fprint s (Some (Output f)) (msg @ [NL])) (\<lambda>s'. showHelp s' c))"

text \<open>
  The end of \<open>FlagSet.Parse\<close> on an error, by the flag set's error handling: the error is
  returned (and Execute returns it with the serious code), or the process exits (status 0
  for the help request, 2 otherwise), or Parse panics with the error.
\<close>

definition parseFailure :: "world \<Rightarrow> addr \<Rightarrow> FlagSet \<Rightarrow> parse_error \<Rightarrow> (int \<times> error option) outcome \<times> world" where
  "parseFailure s c f pe =
     andThen (reportParseError s c f pe)
       (\<lambda>s'. case errorHandling f of
                ContinueOnError \<Rightarrow> (Returned (ExitCodeSerious, Some (parseError pe)), s')
              | ExitOnError \<Rightarrow> (Exited (if parseError pe = ErrHelp then 0 else 2), s')
              | PanicOnError \<Rightarrow> (Panicked (error_text (parseError pe)), s'))"

text \<open>The stream inheritance at the head of Execute.\<close>

definition inheritStreams :: "world \<Rightarrow> addr \<Rightarrow> world" where
  "inheritStreams s c =
     (case parent (cmds s c) of
        None \<Rightarrow> s
      | Some p \<Rightarrow>
          s\<lparr>cmds := (cmds s)(c := (cmds s c)\<lparr>stdin := stdin (cmds s p),
                                              stdout := stdout (cmds s p),
                                              stderr := stderr (cmds s p)\<rparr>)\<rparr>)"

text \<open>The flag set Execute parses: the node's, or a new empty one that exits on error.\<close>

definition flagSetOf :: "world \<Rightarrow> addr \<Rightarrow> FlagSet" where
  "flagSetOf s c =
     (case Flags (cmds s c) of
        None \<Rightarrow> NewFlagSet (Name (cmds s c)) ExitOnError
      | Some f \<Rightarrow> f)"

text \<open>Parsing changes the flag set that the node points to, when it has one.\<close>

definition storeFlags :: "world \<Rightarrow> addr \<Rightarrow> FlagSet \<Rightarrow> world" where
  "storeFlags s c f =
     (case Flags (cmds s c) of
        None \<Rightarrow> s
      | Some old \<Rightarrow> s\<lparr>cmds := (cmds s)(c := (cmds s c)\<lparr>Flags := Some f\<rparr>)\<rparr>)"

text \<open>The call of the node's handler; the call and its result are logged.\<close>

definition invokeFunc :: "world \<Rightarrow> addr \<Rightarrow> CommandFunc \<Rightarrow> FlagSet \<Rightarrow> (int \<times> error option) outcome \<times> world" where
  "invokeFunc s c h f =
     (let cmd = cmds s c;
          r = h (stdout cmd) f (stdin cmd) (stderr cmd)
      in (Returned r, s\<lparr>invoked := invoked s @ [(c, r)]\<rparr>))"

text \<open>
  The two places of Execute that read
  \<open>if cmd.Func != nil { return cmd.Func(...) }; return helpForCommand(cmd, fs)\<close>.
\<close>

definition funcOrHelp :: "world \<Rightarrow> addr \<Rightarrow> FlagSet \<Rightarrow> (int \<times> error option) outcome \<times> world" where
  "funcOrHelp s c f =
     (case Func (cmds s c) of
        Some h \<Rightarrow> invokeFunc s c h f
      | None \<Rightarrow> helpForCommand s c f)"

definition visit :: "world \<Rightarrow> addr \<Rightarrow> world" where
  "visit s c = s\<lparr>visited := visited s @ [c]\<rparr>"

fun Execute :: "world \<Rightarrow> addr \<Rightarrow> string list \<Rightarrow> (int \<times> error option) outcome \<times> world" where
  "Execute s c [] = (Panicked (''invalid execute '' @ Quote (Name (cmds s c))), s)"
| "Execute s c (arg0 # rest) =
     (if length (children (cmds s c)) = 0 \<and> Func (cmds s c) = None
      then (Panicked (''invalid command '' @ Quote (Name (cmds s c))), s)
      else
        (let s1 = inheritStreams (visit s c) c
         in case Parse_steps (flagSetOf s1 c) rest of
              (fs, Some pe) \<Rightarrow> parseFailure (storeFlags s1 c fs) c fs pe
            | (fs, None) \<Rightarrow>
                (let s2 = storeFlags s1 c fs
                 in if rest = [] then funcOrHelp s2 c fs
                    else if hd rest = ''help'' then helpForCommand s2 c fs
                    else
                      (case map_of (children (cmds s2 c)) (hd rest) of
                         None \<Rightarrow> funcOrHelp s2 c fs
                       | Some subcommand \<Rightarrow> Execute s2 subcommand rest))))"

section \<open>command.go: RegisterChild\<close>

text \<open>
  The syntax of the regular expressions that \<open>commandNameRegex\<close> uses: the anchors
  \<open>^\<close> and \<open>$\<close> (begin and end of the text), a literal byte, a class of byte ranges,
  concatenation, alternation, \<open>?\<close>, \<open>*\<close> and \<open>+\<close>.
\<close>

datatype regexp =
    BeginText
  | EndText
  | Lit char
  | CharClass "(char \<times> char) list"
  | Cat regexp regexp
  | Alt regexp regexp
  | Quest regexp
  | Star regexp
  | Plus regexp

definition inClass :: "(char \<times> char) list \<Rightarrow> char \<Rightarrow> bool" where
  "inClass rs c = (\<exists>(lo, hi) \<in> set rs. lo \<le> c \<and> c \<le> hi)"

text \<open>
  \<open>matches r b w e\<close>: the expression matches the piece \<open>w\<close> of the text, where \<open>b\<close>
  says that the piece begins the text and \<open>e\<close> that it ends it. An iteration of \<open>*\<close> or
  \<open>+\<close> that is followed by another one consumes at least one byte.
\<close>

function matches :: "regexp \<Rightarrow> bool \<Rightarrow> string \<Rightarrow> bool \<Rightarrow> bool" where
  "matches BeginText b w e = (w = [] \<and> b)"
| "matches EndText b w e = (w = [] \<and> e)"
| "matches (Lit c) b w e = (w = [c])"
| "matches (CharClass rs) b w e = (length w = 1 \<and> inClass rs (hd w))"
| "matches (Cat r1 r2) b w e =
     (\<exists>i \<in> {0..length w}. matches r1 b (take i w) (e \<and> i = length w)
                          \<and> matches r2 (b \<and> i = 0) (drop i w) e)"
| "matches (Alt r1 r2) b w e = (matches r1 b w e \<or> matches r2 b w e)"
| "matches (Quest r) b w e = (w = [] \<or> matches r b w e)"
| "matches (Star r) b w e =
     (w = [] \<or> matches r b w e \<or>
      (\<exists>i \<in> {1..<length w}. matches r b (take i w) False \<and> matches (Star r) False (drop i w) e))"
| "matches (Plus r) b w e =
     (matches r b w e \<or>
      (\<exists>i \<in> {1..<length w}. matches r b (take i w) False \<and> matches (Plus r) False (drop i w) e))"
  by pat_completeness auto
termination
  by (relation "measures [\<lambda>(r, b, w, e). size r, \<lambda>(r, b, w, e). length w]") auto

text \<open>\<open>Regexp.MatchString\<close>: whether the text contains a match.\<close>

definition MatchString :: "regexp \<Rightarrow> string \<Rightarrow> bool" where
  "MatchString r s =
     (\<exists>i \<in> {0..length s}. \<exists>j \<in> {i..length s}.
        matches r (i = 0) (take (j - i) (drop i s)) (j = length s))"

text \<open>The class \<open>[a-z0-9]\<close>.\<close>

definition alnum :: regexp where
  "alnum = CharClass [(CHR ''a'', CHR ''z''), (CHR ''0'', CHR ''9'')]"

text \<open>The group \<open>([a-z0-9]+-?[a-z0-9]*)\<close>.\<close>

definition nameGroup :: regexp where
  "nameGroup = Cat (Plus alnum) (Cat (Quest (Lit (CHR ''-''))) (Star alnum))"

text \<open>\<^verbatim>\<open>^[a-z0-9]$|^([a-z0-9]+-?[a-z0-9]*)+[a-z0-9]$\<close>\<close>

definition commandNameRegex :: regexp where
  "commandNameRegex =
     Alt (Cat BeginText (Cat alnum EndText))
         (Cat BeginText (Cat (Plus nameGroup) (Cat alnum EndText)))"

text \<open>
  \<open>c.RegisterChild(cmd)\<close>, with \<open>c\<close> and \<open>cmd\<close> the addresses of the two commands. The
  assignments follow the source's order, each reading the world the one before it left
  (the two addresses may be the same).
\<close>

definition RegisterChild :: "world \<Rightarrow> addr \<Rightarrow> addr \<Rightarrow> unit outcome \<times> world" where
  "RegisterChild s c cmd =
     (if Name (cmds s cmd) = [] then (Panicked ''command name is required'', s)
      else if Short (cmds s cmd) = [] then (Panicked ''command short string is required'', s)
      else if map_of (children (cmds s c)) (Name (cmds s cmd)) \<noteq> None
        then (Panicked (''command already registered: '' @ Name (cmds s cmd)), s)
      else if \<not> MatchString commandNameRegex (Name (cmds s cmd))
        then (Panicked ''invalid command name'', s)
      else
        (let s1 = s\<lparr>cmds := (cmds s)(cmd := (cmds s cmd)\<lparr>parent := Some c\<rparr>)\<rparr>;
             s2 = s1\<lparr>cmds := (cmds s1)(c := (cmds s1 c)\<lparr>children :=
                        AList.update (Name (cmds s1 cmd)) cmd (children (cmds s1 c))\<rparr>)\<rparr>;
             s3 = (if int (length (Name (cmds s2 cmd))) > longestName (cmds s2 c)
                   then s2\<lparr>cmds := (cmds s2)(c := (cmds s2 c)\<lparr>longestName :=
                              int (length (Name (cmds s2 cmd)))\<rparr>)\<rparr>
                   else s2)
         in (Returned (), s3)))"

section \<open>The name format, in the words of the specification\<close>

definition lowerAlnum :: "char \<Rightarrow> bool" where
  "lowerAlnum c = ((CHR ''a'' \<le> c \<and> c \<le> CHR ''z'') \<or> (CHR ''0'' \<le> c \<and> c \<le> CHR ''9''))"

fun adjacentHyphens :: "string \<Rightarrow> bool" where
  "adjacentHyphens (a # b # rest) = ((a = CHR ''-'' \<and> b = CHR ''-'') \<or> adjacentHyphens (b # rest))"
| "adjacentHyphens [a] = False"
| "adjacentHyphens [] = False"

text \<open>
  A valid name: a single lowercase alphanumeric character, or a run of lowercase
  alphanumeric characters and hyphens that neither starts nor ends with a hyphen nor
  contains adjacent hyphens.
\<close>

definition validName :: "string \<Rightarrow> bool" where
  "validName s =
     ((length s = 1 \<and> lowerAlnum (hd s)) \<or>
      (s \<noteq> [] \<and> (\<forall>c \<in> set s. lowerAlnum c \<or> c = CHR ''-'') \<and>
       hd s \<noteq> CHR ''-'' \<and> last s \<noteq> CHR ''-'' \<and> \<not> adjacentHyphens s))"


section \<open>Auxiliary notions for the proofs about the name format\<close>

text \<open>What the group \<open>([a-z0-9]+-?[a-z0-9]*)\<close> matches.\<close>

definition isGroup :: "string \<Rightarrow> bool" where
  "isGroup w = (\<exists>u h v. w = u @ h @ v \<and> u \<noteq> [] \<and> (\<forall>c \<in> set u. lowerAlnum c)
                  \<and> (h = [] \<or> h = ''-'') \<and> (\<forall>c \<in> set v. lowerAlnum c))"

text \<open>What one or more groups match.\<close>


definition goodRun :: "string \<Rightarrow> bool" where
  "goodRun w = (w \<noteq> [] \<and> (\<forall>c \<in> set w. lowerAlnum c \<or> c = CHR ''-'')
                \<and> hd w \<noteq> CHR ''-'' \<and> \<not> adjacentHyphens w)"

text \<open>What the whole expression matches.\<close>


definition nameShape :: "string \<Rightarrow> bool" where
  "nameShape w = ((\<exists>c. w = [c] \<and> lowerAlnum c) \<or> (\<exists>x c. w = x @ [c] \<and> goodRun x \<and> lowerAlnum c))"

text \<open>Auxiliary: a handler call as it shows in the final world \<open>s'\<close>, for the proofs about exit codes.\<close>

definition handlerReturned :: "world \<Rightarrow> world \<Rightarrow> int \<Rightarrow> error option \<Rightarrow> bool" where
  "handlerReturned s s' code err =
     (\<exists>n h f. Func (cmds s' n) = Some h
        \<and> h (stdout (cmds s' n)) f (stdin (cmds s' n)) (stderr (cmds s' n)) = (code, err)
        \<and> invoked s' = invoked s @ [(n, code, err)])"

section \<open>Streams and links of the tree\<close>

text \<open>The three stream fields of a command.\<close>

definition streamsOf :: "Command \<Rightarrow> stream option \<times> stream option \<times> stream option" where
  "streamsOf cmd = (stdin cmd, stdout cmd, stderr cmd)"

text \<open>
  The links agree: every child that a node's map holds has that node as its parent. This
  is what RegisterChild leaves behind for a child that is registered once.
\<close>

definition treeLinked :: "world \<Rightarrow> bool" where
  "treeLinked s =
     (\<forall>n k ch. map_of (children (cmds s n)) k = Some ch \<longrightarrow> parent (cmds s ch) = Some n)"

section \<open>Example trees\<close>

text \<open>The zero value of the struct, \<open>Command{}\<close>.\<close>

definition zeroCommand :: Command where
  "zeroCommand =
     \<lparr>Name = [], Func = None, Usage = [], Short = [], Long = [], Flags = None,
      parent = None, children = [], longestName = 0,
      stdin = None, stdout = None, stderr = None\<rparr>"

text \<open>
  The root as \<open>init\<close> leaves it (with a name for the program and a short text), at
  address 0, and commands that have not been registered yet: \<open>build\<close> at address 2,
  without handler and without children, and a second command that is also called
  \<open>build\<close> at address 3. Address 4 holds a command with two adjacent hyphens in
  its name.
\<close>

definition rootCommand :: Command where
  "rootCommand =
     zeroCommand\<lparr>Name := ''prog'', Short := ''The program'',
                  stdin := Some OsStdin, stdout := Some OsStdout, stderr := Some OsStderr\<rparr>"

definition freshWorld :: world where
  "freshWorld =
     \<lparr>cmds = (\<lambda>a. zeroCommand)
               (0 := rootCommand,
                2 := zeroCommand\<lparr>Name := ''build'', Short := ''Build it''\<rparr>,
                3 := zeroCommand\<lparr>Name := ''build'', Short := ''Build it again'',
                                  Func := Some (\<lambda>out f inp err. (ExitCodeSuccess, None))\<rparr>,
                4 := zeroCommand\<lparr>Name := ''a--b'', Short := ''Badly named''\<rparr>),
      written = (\<lambda>w. []),
      invoked = [],
      visited = []\<rparr>"

text \<open>The same world after \<open>build\<close> (address 2) has been registered under the root.\<close>

definition builtWorld :: world where
  "builtWorld =
     freshWorld\<lparr>cmds := (cmds freshWorld)
        (2 := zeroCommand\<lparr>Name := ''build'', Short := ''Build it'', parent := Some 0\<rparr>,
         0 := rootCommand\<lparr>children := [(''build'', 2)], longestName := 5\<rparr>)\<rparr>"

text \<open>
  A tool with two commands registered under the root: \<open>run\<close> (address 5), with a
  handler that reports failure and a flag set of its own that continues on error and
  defines the bool flag \<open>-v\<close>; and a command that is itself called \<open>help\<close>
  (address 6), with a handler. The streams of the two children are nil: they are inherited
  when a command is executed, not when it is registered.
\<close>

definition runFlags :: FlagSet where
  "runFlags =
     (NewFlagSet ''run'' ContinueOnError)
       \<lparr>formal := [\<lparr>Flag_Name = ''v'', Flag_Usage = ''be verbose'',
                     Flag_Value = boolValue False, DefValue = ''false''\<rparr>]\<rparr>"

definition toolWorld :: world where
  "toolWorld =
     \<lparr>cmds = (\<lambda>a. zeroCommand)
               (0 := rootCommand\<lparr>children := [(''run'', 5), (''help'', 6)], longestName := 4\<rparr>,
                5 := zeroCommand\<lparr>Name := ''run'', Short := ''Run it.'', Usage := ''[-v] <args>'',
                                  Func := Some (\<lambda>out f inp err. (ExitCodeFailure, None)),
                                  Flags := Some runFlags, parent := Some 0\<rparr>,
                6 := zeroCommand\<lparr>Name := ''help'', Short := ''Custom help'',
                                  Func := Some (\<lambda>out f inp err. (ExitCodeFailure, None)),
                                  parent := Some 0\<rparr>),
      written = (\<lambda>w. []),
      invoked = [],
      visited = []\<rparr>"

text \<open>The same tool, with the two children of the root listed in the other order.\<close>

definition swappedWorld :: world where
  "swappedWorld =
     toolWorld\<lparr>cmds := (cmds toolWorld)
        (0 := (cmds toolWorld 0)\<lparr>children := [(''help'', 6), (''run'', 5)]\<rparr>)\<rparr>"

text \<open>A flag set with one string flag, as \<open>StringVar\<close> of package flag defines it.\<close>

definition nameFlags :: FlagSet where
  "nameFlags =
     (NewFlagSet ''greet'' ContinueOnError)
       \<lparr>formal := [\<lparr>Flag_Name = ''name'', Flag_Usage = ''who to greet'',
                     Flag_Value = flag_stringValue ''joe'', DefValue = ''joe''\<rparr>]\<rparr>"

section \<open>The name format\<close>

declare matches.simps(5,8,9) [simp del]

lemma take_singleton_index: "take i xs = [c] \<Longrightarrow> i < length xs \<Longrightarrow> i = Suc 0"
proof -
  assume a: "take i xs = [c]" and b: "i < length xs"
  from a have "length (take i xs) = length [c]" by (rule arg_cong)
  with b show ?thesis by simp
qed

lemma lowerAlnum_not_hyphen [simp]: "\<not> lowerAlnum (CHR ''-'')"
  by (simp add: lowerAlnum_def less_eq_char_def)

lemma matches_alnum [simp]:
  "matches alnum b w e \<longleftrightarrow> (\<exists>c. w = [c] \<and> lowerAlnum c)"
  by (cases w) (auto simp: alnum_def inClass_def lowerAlnum_def)

lemma matches_Plus_alnum:
  "matches (Plus alnum) b w e \<longleftrightarrow> w \<noteq> [] \<and> (\<forall>c \<in> set w. lowerAlnum c)"
proof (induction w arbitrary: b)
  case Nil
  show ?case by (subst matches.simps) simp
next
  case (Cons a w)
  show ?case
  proof (cases w)
    case Nil
    then show ?thesis by (subst matches.simps) simp
  next
    case (Cons a' w')
    have "matches (Plus alnum) b (a # w) e \<longleftrightarrow>
          (\<exists>i \<in> {1..<length (a # w)}. matches alnum b (take i (a # w)) False
              \<and> matches (Plus alnum) False (drop i (a # w)) e)"
      using Cons by (subst matches.simps) simp
    also have "\<dots> \<longleftrightarrow> lowerAlnum a \<and> matches (Plus alnum) False w e"
    proof
      assume "\<exists>i \<in> {1..<length (a # w)}. matches alnum b (take i (a # w)) False
              \<and> matches (Plus alnum) False (drop i (a # w)) e"
      then obtain i where i: "1 \<le> i" "i < length (a # w)"
        and m1: "matches alnum b (take i (a # w)) False"
        and m2: "matches (Plus alnum) False (drop i (a # w)) e" by auto
      from m1 i have "i = 1" by (auto dest: take_singleton_index)
      with m1 m2 show "lowerAlnum a \<and> matches (Plus alnum) False w e" by simp
    next
      assume "lowerAlnum a \<and> matches (Plus alnum) False w e"
      then show "\<exists>i \<in> {1..<length (a # w)}. matches alnum b (take i (a # w)) False
              \<and> matches (Plus alnum) False (drop i (a # w)) e"
        using Cons by (intro bexI [of _ 1]) auto
    qed
    finally show ?thesis using Cons.IH [of False] Cons by auto
  qed
qed

lemma matches_Star_alnum:
  "matches (Star alnum) b w e \<longleftrightarrow> (\<forall>c \<in> set w. lowerAlnum c)"
proof (induction w arbitrary: b)
  case Nil
  show ?case by (subst matches.simps) simp
next
  case (Cons a w)
  show ?case
  proof (cases w)
    case Nil
    then show ?thesis by (subst matches.simps) simp
  next
    case (Cons a' w')
    have "matches (Star alnum) b (a # w) e \<longleftrightarrow>
          (\<exists>i \<in> {1..<length (a # w)}. matches alnum b (take i (a # w)) False
              \<and> matches (Star alnum) False (drop i (a # w)) e)"
      using Cons by (subst matches.simps) simp
    also have "\<dots> \<longleftrightarrow> lowerAlnum a \<and> matches (Star alnum) False w e"
    proof
      assume "\<exists>i \<in> {1..<length (a # w)}. matches alnum b (take i (a # w)) False
              \<and> matches (Star alnum) False (drop i (a # w)) e"
      then obtain i where i: "1 \<le> i" "i < length (a # w)"
        and m1: "matches alnum b (take i (a # w)) False"
        and m2: "matches (Star alnum) False (drop i (a # w)) e" by auto
      from m1 i have "i = 1" by (auto dest: take_singleton_index)
      with m1 m2 show "lowerAlnum a \<and> matches (Star alnum) False w e" by simp
    next
      assume "lowerAlnum a \<and> matches (Star alnum) False w e"
      then show "\<exists>i \<in> {1..<length (a # w)}. matches alnum b (take i (a # w)) False
              \<and> matches (Star alnum) False (drop i (a # w)) e"
        using Cons by (intro bexI [of _ 1]) auto
    qed
    finally show ?thesis using Cons.IH [of False] Cons by auto
  qed
qed

lemma matches_Cat:
  "matches (Cat r1 r2) b w e \<longleftrightarrow>
     (\<exists>u v. w = u @ v \<and> matches r1 b u (e \<and> v = []) \<and> matches r2 (b \<and> u = []) v e)"
proof
  assume "matches (Cat r1 r2) b w e"
  then obtain i where i: "i \<le> length w"
    and m1: "matches r1 b (take i w) (e \<and> i = length w)"
    and m2: "matches r2 (b \<and> i = 0) (drop i w) e" unfolding matches.simps by auto
  from i have "(i = length w) = (drop i w = [])" by auto
  moreover from i have "(i = 0) = (take i w = [])" by auto
  ultimately show "\<exists>u v. w = u @ v \<and> matches r1 b u (e \<and> v = []) \<and> matches r2 (b \<and> u = []) v e"
    using m1 m2 by (intro exI [of _ "take i w"] exI [of _ "drop i w"]) simp
next
  assume "\<exists>u v. w = u @ v \<and> matches r1 b u (e \<and> v = []) \<and> matches r2 (b \<and> u = []) v e"
  then obtain u v where w: "w = u @ v" and m1: "matches r1 b u (e \<and> v = [])"
    and m2: "matches r2 (b \<and> u = []) v e" by blast
  have "matches r1 b (take (length u) w) (e \<and> length u = length w)
        \<and> matches r2 (b \<and> length u = 0) (drop (length u) w) e"
    using w m1 m2 by simp
  moreover have "length u \<in> {0..length w}" using w by simp
  ultimately show "matches (Cat r1 r2) b w e"
    unfolding matches.simps by blast
qed


lemma matches_Plus:
  "matches (Plus r) b w e \<longleftrightarrow>
     (matches r b w e \<or>
      (\<exists>u v. w = u @ v \<and> u \<noteq> [] \<and> v \<noteq> [] \<and> matches r b u False \<and> matches (Plus r) False v e))"
proof -
  have "(\<exists>i \<in> {1..<length w}. matches r b (take i w) False \<and> matches (Plus r) False (drop i w) e)
        \<longleftrightarrow> (\<exists>u v. w = u @ v \<and> u \<noteq> [] \<and> v \<noteq> [] \<and> matches r b u False \<and> matches (Plus r) False v e)"
  proof
    assume "\<exists>i \<in> {1..<length w}. matches r b (take i w) False \<and> matches (Plus r) False (drop i w) e"
    then obtain i where i: "1 \<le> i" "i < length w"
      and m: "matches r b (take i w) False" "matches (Plus r) False (drop i w) e" by auto
    from i have "take i w \<noteq> []" "drop i w \<noteq> []" by auto
    with m show "\<exists>u v. w = u @ v \<and> u \<noteq> [] \<and> v \<noteq> [] \<and> matches r b u False \<and> matches (Plus r) False v e"
      by (intro exI [of _ "take i w"] exI [of _ "drop i w"]) simp
  next
    assume "\<exists>u v. w = u @ v \<and> u \<noteq> [] \<and> v \<noteq> [] \<and> matches r b u False \<and> matches (Plus r) False v e"
    then obtain u v where w: "w = u @ v" "u \<noteq> []" "v \<noteq> []"
      and m: "matches r b u False" "matches (Plus r) False v e" by blast
    have "length u \<in> {1..<length w}" using w by (cases u; cases v) auto
    moreover have "matches r b (take (length u) w) False \<and> matches (Plus r) False (drop (length u) w) e"
      using w m by simp
    ultimately show "\<exists>i \<in> {1..<length w}. matches r b (take i w) False \<and> matches (Plus r) False (drop i w) e"
      by blast
  qed
  then show ?thesis by (subst matches.simps) simp
qed


lemma matches_hyphen_tail:
  "matches (Cat (Quest (Lit (CHR ''-''))) (Star alnum)) b w e \<longleftrightarrow>
     (\<exists>h v. w = h @ v \<and> (h = [] \<or> h = ''-'') \<and> (\<forall>c \<in> set v. lowerAlnum c))"
  unfolding matches_Cat by (simp add: matches_Star_alnum)

lemma matches_nameGroup: "matches nameGroup b w e \<longleftrightarrow> isGroup w"
proof -
  have "matches nameGroup b w e \<longleftrightarrow>
     (\<exists>u t. w = u @ t \<and> (u \<noteq> [] \<and> (\<forall>c \<in> set u. lowerAlnum c))
         \<and> (\<exists>h v. t = h @ v \<and> (h = [] \<or> h = ''-'') \<and> (\<forall>c \<in> set v. lowerAlnum c)))"
    unfolding nameGroup_def
    by (subst matches_Cat) (simp only: matches_Plus_alnum matches_hyphen_tail)
  also have "\<dots> \<longleftrightarrow> isGroup w"
    unfolding isGroup_def by blast
  finally show ?thesis .
qed

lemma adjacentHyphens_append:
  "adjacentHyphens (u @ v) \<longleftrightarrow>
     adjacentHyphens u \<or> adjacentHyphens v \<or> (u \<noteq> [] \<and> v \<noteq> [] \<and> last u = CHR ''-'' \<and> hd v = CHR ''-'')"
proof (induction u rule: adjacentHyphens.induct)
  case (1 a b rest)
  then show ?case by auto
next
  case (2 a)
  then show ?case by (cases v) auto
next
  case 3
  then show ?case by simp
qed


lemma adjacentHyphens_alnum: "\<forall>c \<in> set u. lowerAlnum c \<Longrightarrow> \<not> adjacentHyphens u"
  by (induction u rule: adjacentHyphens.induct) auto


lemma isGroup_goodRun: "isGroup w \<Longrightarrow> goodRun w"
proof -
  assume "isGroup w"
  then obtain u h v where w: "w = u @ h @ v" and u: "u \<noteq> []" "\<forall>c \<in> set u. lowerAlnum c"
    and h: "h = [] \<or> h = ''-''" and v: "\<forall>c \<in> set v. lowerAlnum c"
    unfolding isGroup_def by blast
  from u have hdu: "lowerAlnum (hd u)" "lowerAlnum (last u)" by auto
  then have hd1: "hd u \<noteq> CHR ''-''" "last u \<noteq> CHR ''-''" by auto
  have hv: "v \<noteq> [] \<Longrightarrow> hd v \<noteq> CHR ''-''" using v by (cases v) auto
  have "\<not> adjacentHyphens (h @ v)"
    using h v hv by (auto simp: adjacentHyphens_append adjacentHyphens_alnum)
  moreover have "h @ v \<noteq> [] \<Longrightarrow> last u = CHR ''-'' \<Longrightarrow> False" using hd1 by simp
  ultimately have "\<not> adjacentHyphens w"
    unfolding w using u by (auto simp: adjacentHyphens_append [of u] adjacentHyphens_alnum)
  then show ?thesis
    unfolding goodRun_def using w u h v hd1 by auto
qed


lemma goodRun_append: "goodRun u \<Longrightarrow> goodRun v \<Longrightarrow> goodRun (u @ v)"
  by (auto simp: goodRun_def adjacentHyphens_append)


lemma matches_Plus_nameGroup_goodRun:
  "matches (Plus nameGroup) b w e \<Longrightarrow> goodRun w"
proof (induction "length w" arbitrary: w b rule: less_induct)
  case less
  have "matches nameGroup b w e \<or>
      (\<exists>u v. w = u @ v \<and> u \<noteq> [] \<and> v \<noteq> [] \<and> matches nameGroup b u False
          \<and> matches (Plus nameGroup) False v e)"
    by (rule iffD1 [OF matches_Plus]) (rule less.prems)
  then show ?case
  proof
    assume "matches nameGroup b w e"
    then show ?thesis by (simp only: matches_nameGroup isGroup_goodRun)
  next
    assume "\<exists>u v. w = u @ v \<and> u \<noteq> [] \<and> v \<noteq> [] \<and> matches nameGroup b u False
          \<and> matches (Plus nameGroup) False v e"
    then obtain u v where w: "w = u @ v" and u: "u \<noteq> []"
      and mu: "matches nameGroup b u False" and mv: "matches (Plus nameGroup) False v e"
      by blast
    from w u have "length v < length w" by (cases u) simp_all
    then have "goodRun v" using mv by (rule less.hyps)
    moreover from mu have "goodRun u" by (simp only: matches_nameGroup isGroup_goodRun)
    ultimately show ?thesis unfolding w by (simp only: goodRun_append)
  qed
qed

lemma isGroup_single: "lowerAlnum a \<Longrightarrow> isGroup [a]"
  unfolding isGroup_def by (intro exI [of _ "[a]"] exI [of _ "[]"]) simp


lemma isGroup_hyphen: "lowerAlnum a \<Longrightarrow> isGroup [a, CHR ''-'']"
  unfolding isGroup_def by (intro exI [of _ "[a]"] exI [of _ "''-''"] exI [of _ "[]"]) simp


lemma matches_Plus_step:
  "matches nameGroup b u False \<Longrightarrow> matches (Plus nameGroup) False v e \<Longrightarrow> u \<noteq> [] \<Longrightarrow> v \<noteq> []
   \<Longrightarrow> matches (Plus nameGroup) b (u @ v) e"
  by (rule iffD2 [OF matches_Plus]) blast

lemma matches_Plus_one:
  "matches nameGroup b u e \<Longrightarrow> matches (Plus nameGroup) b u e"
  by (rule iffD2 [OF matches_Plus]) blast

lemma goodRun_tail: "goodRun (a # c # rest) \<Longrightarrow> c \<noteq> CHR ''-'' \<Longrightarrow> goodRun (c # rest)"
  by (auto simp add: goodRun_def)

lemma goodRun_tail2: "goodRun (a # CHR ''-'' # d # rest) \<Longrightarrow> goodRun (d # rest)"
  by (auto simp add: goodRun_def)

lemma goodRun_head: "goodRun (a # rest) \<Longrightarrow> lowerAlnum a"
  by (auto simp add: goodRun_def)

lemma goodRun_matches_Plus_nameGroup:
  "goodRun w \<Longrightarrow> matches (Plus nameGroup) b w e"
proof (induction "length w" arbitrary: w b rule: less_induct)
  case less
  from less.prems obtain a rest where w: "w = a # rest" by (cases w) (simp_all add: goodRun_def)
  from less.prems have a: "lowerAlnum a" unfolding w by (rule goodRun_head)
  show ?case
  proof (cases rest)
    case Nil
    have "matches nameGroup b [a] e" using a by (simp only: matches_nameGroup isGroup_single)
    then show ?thesis unfolding w Nil by (rule matches_Plus_one)
  next
    case (Cons c rest')
    show ?thesis
    proof (cases "c = CHR ''-''")
      case False
      from less.prems have "goodRun (c # rest')" unfolding w Cons using False by (rule goodRun_tail)
      moreover have "length (c # rest') < length w" unfolding w Cons by simp
      ultimately have "matches (Plus nameGroup) False (c # rest') e" using less.hyps by blast
      moreover have "matches nameGroup b [a] False" using a by (simp only: matches_nameGroup isGroup_single)
      ultimately have "matches (Plus nameGroup) b ([a] @ (c # rest')) e"
        by (intro matches_Plus_step) simp_all
      then show ?thesis unfolding w Cons by simp
    next
      case True
      show ?thesis
      proof (cases rest')
        case Nil
        have "matches nameGroup b [a, CHR ''-''] e"
          using a by (simp only: matches_nameGroup isGroup_hyphen)
        then show ?thesis unfolding w Cons True Nil by (rule matches_Plus_one)
      next
        case (Cons d rest'')
        from less.prems have "goodRun (d # rest'')"
          unfolding w \<open>rest = c # rest'\<close> True Cons by (rule goodRun_tail2)
        moreover have "length (d # rest'') < length w"
          unfolding w \<open>rest = c # rest'\<close> Cons by simp
        ultimately have "matches (Plus nameGroup) False (d # rest'') e" using less.hyps by blast
        moreover have "matches nameGroup b [a, CHR ''-''] False"
          using a by (simp only: matches_nameGroup isGroup_hyphen)
        ultimately have "matches (Plus nameGroup) b ([a, CHR ''-''] @ (d # rest'')) e"
          by (intro matches_Plus_step) simp_all
        then show ?thesis unfolding w \<open>rest = c # rest'\<close> True Cons by simp
      qed
    qed
  qed
qed

lemma matches_Plus_nameGroup: "matches (Plus nameGroup) b w e \<longleftrightarrow> goodRun w"
  using matches_Plus_nameGroup_goodRun goodRun_matches_Plus_nameGroup by blast



lemma matches_last_alnum:
  "matches (Cat alnum EndText) b w e \<longleftrightarrow> e \<and> (\<exists>c. w = [c] \<and> lowerAlnum c)"
  unfolding matches_Cat by auto

lemma matches_BeginText_Cat:
  "matches (Cat BeginText r) b w e \<longleftrightarrow> b \<and> matches r b w e"
  by (subst matches_Cat) auto

lemma matches_single:
  "matches (Cat BeginText (Cat alnum EndText)) b w e \<longleftrightarrow>
     b \<and> e \<and> (\<exists>c. w = [c] \<and> lowerAlnum c)"
  by (simp only: matches_BeginText_Cat matches_last_alnum)

lemma matches_run_last:
  "matches (Cat (Plus nameGroup) (Cat alnum EndText)) b w e \<longleftrightarrow>
     e \<and> (\<exists>x c. w = x @ [c] \<and> goodRun x \<and> lowerAlnum c)"
  by (subst matches_Cat) (auto simp: matches_last_alnum matches_Plus_nameGroup)

lemma matches_multi:
  "matches (Cat BeginText (Cat (Plus nameGroup) (Cat alnum EndText))) b w e \<longleftrightarrow>
     b \<and> e \<and> (\<exists>x c. w = x @ [c] \<and> goodRun x \<and> lowerAlnum c)"
  by (simp only: matches_BeginText_Cat matches_run_last)

lemma matches_commandNameRegex:
  "matches commandNameRegex b w e \<longleftrightarrow> b \<and> e \<and> nameShape w"
  unfolding commandNameRegex_def nameShape_def nameGroup_def [symmetric]
  by (simp only: matches.simps(6) matches_single matches_multi) blast

lemma MatchString_commandNameRegex:
  "MatchString commandNameRegex s \<longleftrightarrow> nameShape s"
proof
  assume "MatchString commandNameRegex s"
  then obtain i j where "i \<le> length s" "i \<le> j" "j \<le> length s"
    and "matches commandNameRegex (i = 0) (take (j - i) (drop i s)) (j = length s)"
    unfolding MatchString_def by auto
  then show "nameShape s" by (auto simp add: matches_commandNameRegex)
next
  assume "nameShape s"
  then have "matches commandNameRegex (0 = (0::nat)) (take (length s - 0) (drop 0 s)) (length s = length s)"
    by (simp add: matches_commandNameRegex)
  then show "MatchString commandNameRegex s"
    unfolding MatchString_def by (intro bexI [of _ 0] bexI [of _ "length s"]) simp_all
qed

lemma nameShape_validName: "nameShape s \<longleftrightarrow> validName s"
proof
  assume "nameShape s"
  then consider c where "s = [c]" "lowerAlnum c"
    | x c where "s = x @ [c]" "goodRun x" "lowerAlnum c"
    unfolding nameShape_def by blast
  then show "validName s"
  proof cases
    case 1
    then show ?thesis by (simp add: validName_def)
  next
    case 2
    then have "c \<noteq> CHR ''-''" by auto
    with 2 show ?thesis
      by (auto simp: validName_def goodRun_def adjacentHyphens_append)
  qed
next
  assume v: "validName s"
  show "nameShape s"
  proof (cases "length s = 1 \<and> lowerAlnum (hd s)")
    case True
    then have "s = [hd s]" by (cases s) auto
    with True show ?thesis unfolding nameShape_def by blast
  next
    case False
    with v have ne: "s \<noteq> []" and ok: "\<forall>c \<in> set s. lowerAlnum c \<or> c = CHR ''-''"
      and h: "hd s \<noteq> CHR ''-''" and l: "last s \<noteq> CHR ''-''" and adj: "\<not> adjacentHyphens s"
      unfolding validName_def by blast+
    from ne have s: "s = butlast s @ [last s]" by simp
    from ne ok l have la: "lowerAlnum (last s)" by (meson last_in_set)
    show ?thesis
    proof (cases "butlast s = []")
      case True
      with s have "s = [last s]" by simp
      with la show ?thesis unfolding nameShape_def by blast
    next
      case False
      have "set (butlast s) \<subseteq> set s" by (metis s set_append Un_upper1)
      with ok have ok': "\<forall>c \<in> set (butlast s). lowerAlnum c \<or> c = CHR ''-''" by blast
      from False have "hd (butlast s) = hd s" by (metis s hd_append2)
      with h have h': "hd (butlast s) \<noteq> CHR ''-''" by simp
      from adj have "\<not> adjacentHyphens (butlast s @ [last s])" using s by simp
      then have adj': "\<not> adjacentHyphens (butlast s)" by (simp add: adjacentHyphens_append)
      from False ok' h' adj' have "goodRun (butlast s)" unfolding goodRun_def by blast
      with s la show ?thesis unfolding nameShape_def by blast
    qed
  qed
qed

lemma MatchString_validName: "MatchString commandNameRegex s \<longleftrightarrow> validName s"
  by (simp only: MatchString_commandNameRegex nameShape_validName)

lemma validName_build: "validName ''build''"
  by (simp add: validName_def lowerAlnum_def less_eq_char_def)

lemma not_validName_a__b: "\<not> validName ''a--b''"
  by (simp add: validName_def lowerAlnum_def less_eq_char_def)

lemma validName_nonempty: "validName s \<Longrightarrow> s \<noteq> []"
  by (auto simp: validName_def)

lemma RegisterChild_outcome:
  "fst (RegisterChild s c cmd) =
     (if Name (cmds s cmd) = [] then Panicked ''command name is required''
      else if Short (cmds s cmd) = [] then Panicked ''command short string is required''
      else if Name (cmds s cmd) \<in> fst ` set (children (cmds s c))
        then Panicked (''command already registered: '' @ Name (cmds s cmd))
      else if \<not> validName (Name (cmds s cmd)) then Panicked ''invalid command name''
      else Returned ())"
  by (simp add: RegisterChild_def MatchString_validName Let_def map_of_eq_None_iff)

text \<open>
  C6. The name-format check of RegisterChild (\<open>commandNameRegex.MatchString\<close>) accepts
  a string exactly when it is a valid name in the words of the specification: a single
  lowercase alphanumeric character, or a run of lowercase alphanumeric groups delimited by
  hyphens that neither starts nor ends with a hyphen nor contains adjacent hyphens.
  Registration follows the check in both directions: for every name that is not valid it
  aborts and leaves the world as it was; a valid name passes, so that a child with a valid
  name, a Short text and a name not yet among the parent's children is registered; and the
  abort \<open>invalid command name\<close> happens exactly for the names that reach the check (not
  empty, Short not empty, not yet registered) and are not valid.
\<close>

theorem name_format_check:
  "(MatchString commandNameRegex name \<longleftrightarrow> validName name) \<and>
   (\<not> validName (Name (cmds s cmd)) \<longrightarrow> (\<exists>m. RegisterChild s c cmd = (Panicked m, s))) \<and>
   (validName (Name (cmds s cmd)) \<and> Short (cmds s cmd) \<noteq> []
      \<and> Name (cmds s cmd) \<notin> fst ` set (children (cmds s c))
      \<longrightarrow> fst (RegisterChild s c cmd) = Returned ()) \<and>
   (fst (RegisterChild s c cmd) = Panicked ''invalid command name'' \<longleftrightarrow>
      Name (cmds s cmd) \<noteq> [] \<and> Short (cmds s cmd) \<noteq> []
      \<and> Name (cmds s cmd) \<notin> fst ` set (children (cmds s c))
      \<and> \<not> validName (Name (cmds s cmd)))"
proof (intro conjI impI)
  show "MatchString commandNameRegex name \<longleftrightarrow> validName name"
    by (rule MatchString_validName)
next
  assume "\<not> validName (Name (cmds s cmd))"
  then show "\<exists>m. RegisterChild s c cmd = (Panicked m, s)"
    by (simp add: RegisterChild_def MatchString_validName)
next
  assume a: "validName (Name (cmds s cmd)) \<and> Short (cmds s cmd) \<noteq> []
      \<and> Name (cmds s cmd) \<notin> fst ` set (children (cmds s c))"
  then have "Name (cmds s cmd) \<noteq> []" using validName_nonempty by blast
  with a show "fst (RegisterChild s c cmd) = Returned ()"
    by (simp add: RegisterChild_outcome)
next
  show "fst (RegisterChild s c cmd) = Panicked ''invalid command name'' \<longleftrightarrow>
      Name (cmds s cmd) \<noteq> [] \<and> Short (cmds s cmd) \<noteq> []
      \<and> Name (cmds s cmd) \<notin> fst ` set (children (cmds s c))
      \<and> \<not> validName (Name (cmds s cmd))"
    by (simp add: RegisterChild_outcome)
qed

theorem name_format_check_witness:
  "MatchString commandNameRegex ''build'' \<and> \<not> validName ''a--b'' \<and>
   (\<exists>m. RegisterChild freshWorld 0 4 = (Panicked m, freshWorld)) \<and>
   validName ''build'' \<and> fst (RegisterChild freshWorld 0 2) = Returned ()"
  using name_format_check [of "''build''" freshWorld 4 0]
    name_format_check [of "''build''" freshWorld 2 0]
  by (simp add: validName_def lowerAlnum_def less_eq_char_def freshWorld_def zeroCommand_def
        rootCommand_def)

section \<open>Registration\<close>

lemma RegisterChild_children:
  "RegisterChild s c cmd = (Returned (), s') \<Longrightarrow>
   children (cmds s' c) = AList.update (Name (cmds s cmd)) cmd (children (cmds s c))"
  by (auto simp: RegisterChild_def Let_def split: if_splits)

lemma RegisterChild_registered:
  "RegisterChild s c cmd = (Returned (), s') \<Longrightarrow>
   Name (cmds s cmd) \<in> fst ` set (children (cmds s' c))"
  by (simp add: RegisterChild_children update_conv' flip: dom_map_of_conv_image_fst)

text \<open>
  C5. RegisterChild panics if and only if the child's name is empty, its Short is empty,
  its name fails the name-format rule, or its name is already a key of the parent's
  children. A child that meets none of the four is accepted, whether or not it has a
  handler or children; and once a child is registered, registering a command of the same
  name under the same parent panics.
\<close>

theorem RegisterChild_aborts_iff:
  "((\<exists>m. fst (RegisterChild s c cmd) = Panicked m) \<longleftrightarrow>
      (Name (cmds s cmd) = [] \<or> Short (cmds s cmd) = [] \<or> \<not> validName (Name (cmds s cmd))
       \<or> Name (cmds s cmd) \<in> fst ` set (children (cmds s c))))
   \<and> (Name (cmds s cmd) \<noteq> [] \<and> Short (cmds s cmd) \<noteq> [] \<and> validName (Name (cmds s cmd))
        \<and> Name (cmds s cmd) \<notin> fst ` set (children (cmds s c))
        \<longrightarrow> fst (RegisterChild s c cmd) = Returned ())
   \<and> (RegisterChild s c cmd = (Returned (), s') \<and> Name (cmds s' cmd2) = Name (cmds s cmd)
        \<longrightarrow> (\<exists>m. fst (RegisterChild s' c cmd2) = Panicked m))"
proof (intro conjI impI)
  show "(\<exists>m. fst (RegisterChild s c cmd) = Panicked m) \<longleftrightarrow>
      (Name (cmds s cmd) = [] \<or> Short (cmds s cmd) = [] \<or> \<not> validName (Name (cmds s cmd))
       \<or> Name (cmds s cmd) \<in> fst ` set (children (cmds s c)))"
    by (simp add: RegisterChild_outcome)
next
  assume "Name (cmds s cmd) \<noteq> [] \<and> Short (cmds s cmd) \<noteq> [] \<and> validName (Name (cmds s cmd))
        \<and> Name (cmds s cmd) \<notin> fst ` set (children (cmds s c))"
  then show "fst (RegisterChild s c cmd) = Returned ()"
    by (simp add: RegisterChild_outcome)
next
  assume a: "RegisterChild s c cmd = (Returned (), s') \<and> Name (cmds s' cmd2) = Name (cmds s cmd)"
  then have "Name (cmds s' cmd2) \<in> fst ` set (children (cmds s' c))"
    using RegisterChild_registered [of s c cmd s'] by simp
  then show "\<exists>m. fst (RegisterChild s' c cmd2) = Panicked m"
    by (simp add: RegisterChild_outcome)
qed

lemma freshWorld_register_build:
  "RegisterChild freshWorld 0 2 = (Returned (), builtWorld)"
  by (simp add: RegisterChild_def MatchString_validName validName_build Let_def freshWorld_def
        builtWorld_def zeroCommand_def rootCommand_def)

theorem RegisterChild_aborts_iff_witness:
  "fst (RegisterChild freshWorld 0 2) = Returned () \<and>
   Func (cmds freshWorld 2) = None \<and> children (cmds freshWorld 2) = [] \<and>
   (\<exists>m. fst (RegisterChild builtWorld 0 3) = Panicked m)"
  using RegisterChild_aborts_iff [of freshWorld 0 2 builtWorld 3]
  by (simp add: freshWorld_register_build validName_build)
    (simp add: freshWorld_def builtWorld_def zeroCommand_def rootCommand_def)

section \<open>Parsing\<close>

declare parseLoop.simps [simp del]

lemma setFound_errorHandling:
  "errorHandling (fst (snd (setFound f1 name fl hv v))) = errorHandling f1"
  by (simp add: setFound_def setFlagValue_def split: prod.splits option.splits)

lemma parseOne_errorHandling:
  "errorHandling (fst (snd (parseOne f))) = errorHandling f"
  by (simp add: parseOne_def Let_def setFound_errorHandling split: list.splits option.splits)

lemma parseLoop_errorHandling:
  "errorHandling (fst (parseLoop f)) = errorHandling f"
proof (induction f rule: parseLoop.induct)
  case (1 f)
  obtain seen f1 e1 where p: "parseOne f = (seen, f1, e1)" by (cases "parseOne f") auto
  have e1: "errorHandling f1 = errorHandling f"
    using parseOne_errorHandling [of f] p by simp
  show ?case
  proof (cases seen)
    case True
    have "errorHandling (fst (parseLoop f1)) = errorHandling f1"
      using "1.IH" p True by simp
    moreover have "parseLoop f = parseLoop f1"
      using p True by (subst parseLoop.simps) simp
    ultimately show ?thesis using e1 by simp
  next
    case False
    have "parseLoop f = (f1, e1)" using p False by (subst parseLoop.simps) simp
    then show ?thesis using e1 by simp
  qed
qed

lemma Parse_steps_errorHandling:
  "errorHandling (fst (Parse_steps f as)) = errorHandling f"
  by (simp add: Parse_steps_def parseLoop_errorHandling)

lemma Parse_steps_help:
  "Parse_steps f (''help'' # rest) = (f\<lparr>parsed := True, args := ''help'' # rest\<rparr>, None)"
  unfolding Parse_steps_def by (subst parseLoop.simps) (simp add: parseOne_def)


section \<open>What the steps of Execute leave unchanged\<close>

lemma Fprint_frame [simp]:
  "cmds (snd (Fprint s w t)) = cmds s"
  "invoked (snd (Fprint s w t)) = invoked s"
  "visited (snd (Fprint s w t)) = visited s"
  by (simp_all add: Fprint_def split: option.splits)

lemma Fprint_not_Exited [simp]: "fst (Fprint s w t) \<noteq> Exited n"
  by (simp add: Fprint_def split: option.splits)

lemma helpText_cmds: "cmds s' = cmds s \<Longrightarrow> helpText s' c = helpText s c"
  by (simp add: helpText_def)

lemma showHelp_frame [simp]:
  "cmds (snd (showHelp s c)) = cmds s"
  "invoked (snd (showHelp s c)) = invoked s"
  "visited (snd (showHelp s c)) = visited s"
  by (simp_all add: showHelp_def split: option.splits)

lemma showHelp_not_Exited [simp]: "fst (showHelp s c) \<noteq> Exited n"
  by (simp add: showHelp_def split: option.splits)

lemma andThen_fst:
  "fst (andThen r k) =
     (case fst r of Returned u \<Rightarrow> fst (k (snd r)) | Panicked m \<Rightarrow> Panicked m | Exited n \<Rightarrow> Exited n)"
  by (cases r) (simp add: andThen_def split: outcome.splits)

lemma andThen_snd:
  "snd (andThen r k) =
     (case fst r of Returned u \<Rightarrow> snd (k (snd r)) | Panicked m \<Rightarrow> snd r | Exited n \<Rightarrow> snd r)"
  by (cases r) (simp add: andThen_def split: outcome.splits)

lemma helpForCommand_frame [simp]:
  "cmds (snd (helpForCommand s c f)) = cmds s"
  "invoked (snd (helpForCommand s c f)) = invoked s"
  "visited (snd (helpForCommand s c f)) = visited s"
  by (simp_all add: helpForCommand_def Let_def andThen_snd split: option.splits outcome.splits)

lemma helpForCommand_codes:
  "fst (helpForCommand s c f) = Returned (code, err) \<Longrightarrow>
   code = ExitCodeSuccess \<or> code = ExitCodeSerious"
  by (auto simp: helpForCommand_def Let_def andThen_fst split: option.splits outcome.splits if_splits)

lemma helpForCommand_not_Exited [simp]: "fst (helpForCommand s c f) \<noteq> Exited n"
  by (auto simp: helpForCommand_def Let_def andThen_fst split: option.splits outcome.splits if_splits)

lemma reportParseError_frame [simp]:
  "cmds (snd (reportParseError s c f pe)) = cmds s"
  "invoked (snd (reportParseError s c f pe)) = invoked s"
  "visited (snd (reportParseError s c f pe)) = visited s"
  by (simp_all add: reportParseError_def andThen_snd split: parse_error.splits outcome.splits)

lemma reportParseError_not_Exited [simp]: "fst (reportParseError s c f pe) \<noteq> Exited n"
  by (auto simp: reportParseError_def andThen_fst split: parse_error.splits outcome.splits)

lemma parseFailure_frame [simp]:
  "cmds (snd (parseFailure s c f pe)) = cmds s"
  "invoked (snd (parseFailure s c f pe)) = invoked s"
  "visited (snd (parseFailure s c f pe)) = visited s"
  by (simp_all add: parseFailure_def andThen_snd split: ErrorHandling.splits outcome.splits)

lemma parseFailure_codes:
  "fst (parseFailure s c f pe) = Returned (code, err) \<Longrightarrow> code = ExitCodeSerious"
  by (auto simp: parseFailure_def andThen_fst split: ErrorHandling.splits outcome.splits)

lemma parseFailure_exit_status:
  "fst (parseFailure s c f pe) = Exited n \<Longrightarrow> n = 0 \<or> n = 2"
  by (auto simp: parseFailure_def andThen_fst split: ErrorHandling.splits outcome.splits if_splits)

lemma inheritStreams_frame [simp]:
  "invoked (inheritStreams s c) = invoked s"
  "visited (inheritStreams s c) = visited s"
  "written (inheritStreams s c) = written s"
  by (simp_all add: inheritStreams_def split: option.splits)

lemma storeFlags_frame [simp]:
  "invoked (storeFlags s c f) = invoked s"
  "visited (storeFlags s c f) = visited s"
  "written (storeFlags s c f) = written s"
  by (simp_all add: storeFlags_def split: option.splits)

lemma visit_frame [simp]:
  "invoked (visit s c) = invoked s"
  "cmds (visit s c) = cmds s"
  "written (visit s c) = written s"
  "visited (visit s c) = visited s @ [c]"
  by (simp_all add: visit_def)

lemma funcOrHelp_handler:
  "Func (cmds s c) = Some h \<Longrightarrow>
   funcOrHelp s c f =
     (Returned (h (stdout (cmds s c)) f (stdin (cmds s c)) (stderr (cmds s c))),
      s\<lparr>invoked := invoked s @ [(c, h (stdout (cmds s c)) f (stdin (cmds s c)) (stderr (cmds s c)))]\<rparr>)"
  by (simp add: funcOrHelp_def invokeFunc_def Let_def)

lemma funcOrHelp_help:
  "Func (cmds s c) = None \<Longrightarrow> funcOrHelp s c f = helpForCommand s c f"
  by (simp add: funcOrHelp_def)

lemma Execute_valid:
  assumes "children (cmds s c) \<noteq> [] \<or> Func (cmds s c) \<noteq> None"
  shows "Execute s c (arg0 # rest) =
     (case Parse_steps (flagSetOf (inheritStreams (visit s c) c) c) rest of
        (fs, Some pe) \<Rightarrow> parseFailure (storeFlags (inheritStreams (visit s c) c) c fs) c fs pe
      | (fs, None) \<Rightarrow>
          if rest = [] then funcOrHelp (storeFlags (inheritStreams (visit s c) c) c fs) c fs
          else if hd rest = ''help''
            then helpForCommand (storeFlags (inheritStreams (visit s c) c) c fs) c fs
          else
            (case map_of (children (cmds (storeFlags (inheritStreams (visit s c) c) c fs) c)) (hd rest) of
               None \<Rightarrow> funcOrHelp (storeFlags (inheritStreams (visit s c) c) c fs) c fs
             | Some subcommand \<Rightarrow>
                 Execute (storeFlags (inheritStreams (visit s c) c) c fs) subcommand rest))"
  using assms by (cases "children (cmds s c) = []") (auto simp: Let_def)

lemma Execute_invalid:
  assumes "\<not> (children (cmds s c) \<noteq> [] \<or> Func (cmds s c) \<noteq> None)"
  shows "Execute s c (arg0 # rest) = (Panicked (''invalid command '' @ Quote (Name (cmds s c))), s)"
  using assms by simp

declare Execute.simps [simp del]


lemma Execute_parse_failed:
  assumes "children (cmds s c) \<noteq> [] \<or> Func (cmds s c) \<noteq> None"
    and "Parse_steps (flagSetOf (inheritStreams (visit s c) c) c) rest = (fs, Some pe)"
  shows "Execute s c (arg0 # rest) = parseFailure (storeFlags (inheritStreams (visit s c) c) c fs) c fs pe"
  unfolding Execute_valid [OF assms(1)] using assms(2) by simp

lemma Execute_parsed_cases:
  assumes "children (cmds s c) \<noteq> [] \<or> Func (cmds s c) \<noteq> None"
    and "Parse_steps (flagSetOf (inheritStreams (visit s c) c) c) rest = (fs, None)"
  obtains
    (here) "Execute s c (arg0 # rest) = funcOrHelp (storeFlags (inheritStreams (visit s c) c) c fs) c fs"
  | (helping) "rest \<noteq> []" "hd rest = ''help''"
      "Execute s c (arg0 # rest) = helpForCommand (storeFlags (inheritStreams (visit s c) c) c fs) c fs"
  | (child) sub where "rest \<noteq> []" "hd rest \<noteq> ''help''"
      "map_of (children (cmds (storeFlags (inheritStreams (visit s c) c) c fs) c)) (hd rest) = Some sub"
      "Execute s c (arg0 # rest) = Execute (storeFlags (inheritStreams (visit s c) c) c fs) sub rest"
proof (cases "rest = []")
  case True
  then show ?thesis using here assms(2) unfolding Execute_valid [OF assms(1)] by simp
next
  case ne: False
  show ?thesis
  proof (cases "hd rest = ''help''")
    case True
    then show ?thesis using helping ne assms(2) unfolding Execute_valid [OF assms(1)] by simp
  next
    case nh: False
    show ?thesis
    proof (cases "map_of (children (cmds (storeFlags (inheritStreams (visit s c) c) c fs) c)) (hd rest)")
      case None
      then show ?thesis using here ne nh assms(2) unfolding Execute_valid [OF assms(1)] by simp
    next
      case (Some sub)
      then show ?thesis using child [of sub] ne nh assms(2) unfolding Execute_valid [OF assms(1)] by simp
    qed
  qed
qed


section \<open>Execute: exit codes\<close>

lemma inheritStreams_fields [simp]:
  "children (cmds (inheritStreams s c) a) = children (cmds s a)"
  "Func (cmds (inheritStreams s c) a) = Func (cmds s a)"
  "parent (cmds (inheritStreams s c) a) = parent (cmds s a)"
  "Flags (cmds (inheritStreams s c) a) = Flags (cmds s a)"
  "Name (cmds (inheritStreams s c) a) = Name (cmds s a)"
  by (simp_all add: inheritStreams_def split: option.splits)

lemma storeFlags_fields [simp]:
  "children (cmds (storeFlags s c f) a) = children (cmds s a)"
  "Func (cmds (storeFlags s c f) a) = Func (cmds s a)"
  "parent (cmds (storeFlags s c f) a) = parent (cmds s a)"
  "Name (cmds (storeFlags s c f) a) = Name (cmds s a)"
  "stdin (cmds (storeFlags s c f) a) = stdin (cmds s a)"
  "stdout (cmds (storeFlags s c f) a) = stdout (cmds s a)"
  "stderr (cmds (storeFlags s c f) a) = stderr (cmds s a)"
  by (simp_all add: storeFlags_def split: option.splits)

lemma funcOrHelp_result:
  assumes "funcOrHelp s c f = (Returned (code, err), s')"
  shows "(invoked s' = invoked s \<and> (code = ExitCodeSuccess \<or> code = ExitCodeSerious))
         \<or> handlerReturned s s' code err"
proof (cases "Func (cmds s c)")
  case None
  with assms have h: "helpForCommand s c f = (Returned (code, err), s')"
    by (simp add: funcOrHelp_help)
  then have "fst (helpForCommand s c f) = Returned (code, err)" by simp
  then have "code = ExitCodeSuccess \<or> code = ExitCodeSerious" by (rule helpForCommand_codes)
  moreover have "invoked s' = invoked s"
    using helpForCommand_frame(2) [of s c f] h by simp
  ultimately show ?thesis by simp
next
  case (Some h)
  with assms show ?thesis
    unfolding handlerReturned_def
    by (auto simp: funcOrHelp_handler intro!: exI [of _ c] exI [of _ h] exI [of _ f])
qed

lemma funcOrHelp_not_Exited: "fst (funcOrHelp s c f) \<noteq> Exited n"
  by (simp add: funcOrHelp_def invokeFunc_def Let_def split: option.splits)

lemma funcOrHelp_Panicked:
  "funcOrHelp s c f = (Panicked m, s') \<Longrightarrow> invoked s' = invoked s"
proof (cases "Func (cmds s c)")
  case None
  assume "funcOrHelp s c f = (Panicked m, s')"
  with None have "helpForCommand s c f = (Panicked m, s')" by (simp add: funcOrHelp_help)
  then show ?thesis using helpForCommand_frame(2) [of s c f] by simp
next
  case (Some h)
  assume "funcOrHelp s c f = (Panicked m, s')"
  with Some show ?thesis by (simp add: funcOrHelp_handler)
qed

lemma handlerReturned_invoked_eq:
  "invoked s0 = invoked s \<Longrightarrow> handlerReturned s s' code err \<Longrightarrow> handlerReturned s0 s' code err"
  by (simp add: handlerReturned_def)

lemma Execute_outcomes:
  "(Execute s c argv = (Returned (code, err), s') \<longrightarrow>
      (invoked s' = invoked s \<and> (code = ExitCodeSuccess \<or> code = ExitCodeSerious))
      \<or> handlerReturned s s' code err)
   \<and> (Execute s c argv = (Exited n, s') \<longrightarrow> invoked s' = invoked s \<and> (n = 0 \<or> n = 2))
   \<and> (Execute s c argv = (Panicked m, s') \<longrightarrow> invoked s' = invoked s)"
proof (induction argv arbitrary: s c)
  case Nil
  show ?case by (simp add: Execute.simps)
next
  case (Cons arg0 rest)
  show ?case
  proof (cases "children (cmds s c) \<noteq> [] \<or> Func (cmds s c) \<noteq> None")
    case False
    show ?thesis unfolding Execute_invalid [OF False] by simp
  next
    case valid: True
    obtain fs pr where p: "Parse_steps (flagSetOf (inheritStreams (visit s c) c) c) rest = (fs, pr)"
      by (cases "Parse_steps (flagSetOf (inheritStreams (visit s c) c) c) rest")
    define s2 where "s2 = storeFlags (inheritStreams (visit s c) c) c fs"
    have inv2: "invoked s2 = invoked s" by (simp add: s2_def)
    show ?thesis
    proof (cases pr)
      case (Some pe)
      have e: "Execute s c (arg0 # rest) = parseFailure s2 c fs pe"
        unfolding s2_def using valid p Some by (simp only: Execute_parse_failed)
      have i: "invoked (snd (parseFailure s2 c fs pe)) = invoked s" by (simp add: inv2)
      show ?thesis
        unfolding e using i parseFailure_codes [of s2 c fs pe code err]
          parseFailure_exit_status [of s2 c fs pe n]
        by (cases "parseFailure s2 c fs pe") auto
    next
      case None
      with p have p': "Parse_steps (flagSetOf (inheritStreams (visit s c) c) c) rest = (fs, None)"
        by simp
      from valid p' show ?thesis
      proof (cases rule: Execute_parsed_cases [where ?arg0.0 = arg0])
        case here
        then have h: "Execute s c (arg0 # rest) = funcOrHelp s2 c fs" by (simp only: s2_def)
        have "funcOrHelp s2 c fs \<noteq> (Exited n, s')"
          using funcOrHelp_not_Exited [of s2 c fs n] by auto
        then show ?thesis
          unfolding h
          using funcOrHelp_result [of s2 c fs code err s'] funcOrHelp_Panicked [of s2 c fs m s']
            handlerReturned_invoked_eq [OF inv2 [symmetric], of s' code err]
          by (auto simp: inv2)
      next
        case helping
        then have h: "Execute s c (arg0 # rest) = helpForCommand s2 c fs" by (simp only: s2_def)
        have i: "invoked (snd (helpForCommand s2 c fs)) = invoked s" by (simp add: inv2)
        show ?thesis
          unfolding h
          using i helpForCommand_codes [of s2 c fs code err] helpForCommand_not_Exited [of s2 c fs n]
          by (cases "helpForCommand s2 c fs") auto
      next
        case (child sub)
        then have h: "Execute s c (arg0 # rest) = Execute s2 sub rest" by (simp only: s2_def)
        show ?thesis
          unfolding h
          using Cons.IH [of s2 sub] handlerReturned_invoked_eq [OF inv2 [symmetric], of s' code err]
          by (auto simp: inv2)
      qed
    qed
  qed
qed


text \<open>
  C7. When Execute returns without having invoked a handler, the exit code is success (0)
  or serious (2), never failure (1); otherwise exactly one handler was invoked, and what
  Execute returns is what that handler returned. When the process exits inside Parse, the
  status is 0 or 2 as well, and no handler was invoked. The handler's result is passed
  through verbatim: a node that has a handler, whose flags parse, and whose next token is
  absent or names no child (and is not \<open>help\<close>), returns what its handler returns for
  the streams inherited from the parent and the parsed flag set.
\<close>

theorem dispatcher_exit_codes:
  "(fst (Execute s c argv) = Returned (code, err) \<longrightarrow>
      (invoked (snd (Execute s c argv)) = invoked s
         \<and> (code = ExitCodeSuccess \<or> code = ExitCodeSerious) \<and> code \<noteq> ExitCodeFailure)
      \<or> (\<exists>n h f. Func (cmds (snd (Execute s c argv)) n) = Some h
             \<and> h (stdout (cmds (snd (Execute s c argv)) n)) f
                  (stdin (cmds (snd (Execute s c argv)) n))
                  (stderr (cmds (snd (Execute s c argv)) n)) = (code, err)
             \<and> invoked (snd (Execute s c argv)) = invoked s @ [(n, code, err)]))
   \<and> (fst (Execute s c argv) = Exited n \<longrightarrow>
        invoked (snd (Execute s c argv)) = invoked s \<and> (n = 0 \<or> n = 2))
   \<and> ((children (cmds s c) \<noteq> [] \<or> Func (cmds s c) \<noteq> None)
        \<and> Parse_steps (flagSetOf (inheritStreams (visit s c) c) c) rest = (fs, None)
        \<and> (rest = [] \<or> (hd rest \<noteq> ''help'' \<and> map_of (children (cmds s c)) (hd rest) = None))
        \<and> Func (cmds s c) = Some h
        \<longrightarrow> fst (Execute s c (arg0 # rest)) =
              Returned (h (stdout (cmds (inheritStreams s c) c)) fs
                          (stdin (cmds (inheritStreams s c) c))
                          (stderr (cmds (inheritStreams s c) c))))"
proof -
  have A: "fst (Execute s c argv) = Returned (code, err) \<longrightarrow>
      (invoked (snd (Execute s c argv)) = invoked s
         \<and> (code = ExitCodeSuccess \<or> code = ExitCodeSerious) \<and> code \<noteq> ExitCodeFailure)
      \<or> (\<exists>n h f. Func (cmds (snd (Execute s c argv)) n) = Some h
             \<and> h (stdout (cmds (snd (Execute s c argv)) n)) f
                  (stdin (cmds (snd (Execute s c argv)) n))
                  (stderr (cmds (snd (Execute s c argv)) n)) = (code, err)
             \<and> invoked (snd (Execute s c argv)) = invoked s @ [(n, code, err)])"
  proof
    assume a: "fst (Execute s c argv) = Returned (code, err)"
    then have "Execute s c argv = (Returned (code, err), snd (Execute s c argv))"
      by (cases "Execute s c argv") simp
    then show "(invoked (snd (Execute s c argv)) = invoked s
         \<and> (code = ExitCodeSuccess \<or> code = ExitCodeSerious) \<and> code \<noteq> ExitCodeFailure)
      \<or> (\<exists>n h f. Func (cmds (snd (Execute s c argv)) n) = Some h
             \<and> h (stdout (cmds (snd (Execute s c argv)) n)) f
                  (stdin (cmds (snd (Execute s c argv)) n))
                  (stderr (cmds (snd (Execute s c argv)) n)) = (code, err)
             \<and> invoked (snd (Execute s c argv)) = invoked s @ [(n, code, err)])"
      using Execute_outcomes [of s c argv code err "snd (Execute s c argv)"]
      unfolding handlerReturned_def
      by (auto simp: ExitCodeSuccess_def ExitCodeSerious_def ExitCodeFailure_def)
  qed
  have B: "fst (Execute s c argv) = Exited n \<longrightarrow>
        invoked (snd (Execute s c argv)) = invoked s \<and> (n = 0 \<or> n = 2)"
  proof
    assume a: "fst (Execute s c argv) = Exited n"
    then have "Execute s c argv = (Exited n, snd (Execute s c argv))"
      by (cases "Execute s c argv") simp
    then show "invoked (snd (Execute s c argv)) = invoked s \<and> (n = 0 \<or> n = 2)"
      using Execute_outcomes [of s c argv _ _ "snd (Execute s c argv)" n] by simp
  qed
  have C: "(children (cmds s c) \<noteq> [] \<or> Func (cmds s c) \<noteq> None)
        \<and> Parse_steps (flagSetOf (inheritStreams (visit s c) c) c) rest = (fs, None)
        \<and> (rest = [] \<or> (hd rest \<noteq> ''help'' \<and> map_of (children (cmds s c)) (hd rest) = None))
        \<and> Func (cmds s c) = Some h
        \<longrightarrow> fst (Execute s c (arg0 # rest)) =
              Returned (h (stdout (cmds (inheritStreams s c) c)) fs
                          (stdin (cmds (inheritStreams s c) c))
                          (stderr (cmds (inheritStreams s c) c)))"
  proof
    assume a: "(children (cmds s c) \<noteq> [] \<or> Func (cmds s c) \<noteq> None)
        \<and> Parse_steps (flagSetOf (inheritStreams (visit s c) c) c) rest = (fs, None)
        \<and> (rest = [] \<or> (hd rest \<noteq> ''help'' \<and> map_of (children (cmds s c)) (hd rest) = None))
        \<and> Func (cmds s c) = Some h"
    then have valid: "children (cmds s c) \<noteq> [] \<or> Func (cmds s c) \<noteq> None" by simp
    have st: "stdout (cmds (inheritStreams (visit s c) c) c) = stdout (cmds (inheritStreams s c) c)"
      "stdin (cmds (inheritStreams (visit s c) c) c) = stdin (cmds (inheritStreams s c) c)"
      "stderr (cmds (inheritStreams (visit s c) c) c) = stderr (cmds (inheritStreams s c) c)"
      by (simp_all add: inheritStreams_def visit_def split: option.splits)
    from a show "fst (Execute s c (arg0 # rest)) =
              Returned (h (stdout (cmds (inheritStreams s c) c)) fs
                          (stdin (cmds (inheritStreams s c) c))
                          (stderr (cmds (inheritStreams s c) c)))"
      unfolding Execute_valid [OF valid]
      by (auto simp: funcOrHelp_handler st)
  qed
  show ?thesis by (rule conjI [OF A conjI [OF B C]])
qed


section \<open>Execute on the example tool\<close>

lemma validName_help: "validName ''help''"
  by (simp add: validName_def lowerAlnum_def less_eq_char_def)

lemma toolWorld_run: "fst (Execute toolWorld 0 [''prog'', ''run'']) = Returned (ExitCodeFailure, None)"
  by code_simp

lemma toolWorld_run_invoked:
  "invoked (snd (Execute toolWorld 0 [''prog'', ''run''])) = [(5, ExitCodeFailure, None)]"
  by code_simp

lemma toolWorld_bad_flag: "fst (Execute toolWorld 0 [''prog'', ''-x'']) = Exited 2"
  by code_simp

lemma toolWorld_bad_flag_invoked: "invoked (snd (Execute toolWorld 0 [''prog'', ''-x''])) = []"
  by code_simp

lemma toolWorld_run_parse:
  "Parse_steps (flagSetOf (inheritStreams (visit toolWorld 5) 5) 5) [] =
     (runFlags\<lparr>parsed := True, args := []\<rparr>, None)"
  by code_simp

lemma toolWorld_help: "fst (Execute toolWorld 0 [''prog'', ''help'']) = Returned (ExitCodeSuccess, None)"
  by code_simp

lemma toolWorld_help_invoked: "invoked (snd (Execute toolWorld 0 [''prog'', ''help''])) = []"
  by code_simp

lemma toolWorld_help2: "fst (Execute toolWorld 0 [''prog'', ''help'', ''run'', ''extra'']) = Panicked nilDereference"
  by code_simp

lemma toolWorld_help3: "fst (Execute toolWorld 0 [''prog'', ''help'', ''nosuch'', ''extra''])
    = Returned (ExitCodeSerious, Some (ErrorString ''unknown command: nosuch''))"
  by code_simp

lemma toolWorld_help4: "fst (Execute toolWorld 0 [''prog'', ''help'', ''nosuch'', ''extra'', ''more''])
    = Returned (ExitCodeSerious, Some (ErrorString ''can only give help with one command''))"
  by code_simp


lemma toolWorld_run_node: "children (cmds toolWorld 5) = [] \<and> Func (cmds toolWorld 5) = Some (\<lambda>out f inp err. (ExitCodeFailure, None))"
  by (simp add: toolWorld_def zeroCommand_def)

theorem dispatcher_exit_codes_witness:
  "fst (Execute toolWorld 0 [''prog'', ''run'']) = Returned (ExitCodeFailure, None)
   \<and> invoked (snd (Execute toolWorld 0 [''prog'', ''run''])) = invoked toolWorld @ [(5, ExitCodeFailure, None)]
   \<and> fst (Execute toolWorld 0 [''prog'', ''-x'']) = Exited 2
   \<and> invoked (snd (Execute toolWorld 0 [''prog'', ''-x''])) = invoked toolWorld
   \<and> fst (Execute toolWorld 5 [''run'']) = Returned (ExitCodeFailure, None)"
  using dispatcher_exit_codes [of toolWorld 0 "[''prog'', ''run'']" ExitCodeFailure None 2]
    dispatcher_exit_codes [of toolWorld 0 "[''prog'', ''-x'']" ExitCodeFailure None 2]
    dispatcher_exit_codes [of toolWorld 5 "[''run'']" ExitCodeFailure None 2 "[]"
      "runFlags\<lparr>parsed := True, args := []\<rparr>" "\<lambda>out f inp err. (ExitCodeFailure, None)" "''run''"]
  by (simp add: toolWorld_run toolWorld_run_invoked toolWorld_bad_flag toolWorld_bad_flag_invoked
        toolWorld_run_parse toolWorld_run_node)

text \<open>
  C9. For every node that passes the precondition of Execute (it has a child or a handler)
  and every argument vector whose token after the node's own name is the literal
  \<open>help\<close>, Execute is the help path: it returns what helpForCommand returns for the
  node, with the arguments left as they are; only this node is visited and no handler is
  invoked. A child registered under the name \<open>help\<close>, which the format rule accepts, is
  therefore never dispatched into.
\<close>

theorem help_token_shadows_child:
  assumes "children (cmds s c) \<noteq> [] \<or> Func (cmds s c) \<noteq> None"
  shows "Execute s c (arg0 # ''help'' # rest) =
           helpForCommand
             (storeFlags (inheritStreams (visit s c) c) c
                ((flagSetOf (inheritStreams (visit s c) c) c)\<lparr>parsed := True, args := ''help'' # rest\<rparr>))
             c ((flagSetOf (inheritStreams (visit s c) c) c)\<lparr>parsed := True, args := ''help'' # rest\<rparr>)
         \<and> invoked (snd (Execute s c (arg0 # ''help'' # rest))) = invoked s
         \<and> visited (snd (Execute s c (arg0 # ''help'' # rest))) = visited s @ [c]
         \<and> MatchString commandNameRegex ''help''"
  unfolding Execute_valid [OF assms] by (simp add: Parse_steps_help MatchString_validName validName_help)

lemma toolWorld_help_visited: "visited (snd (Execute toolWorld 0 [''prog'', ''help''])) = [0]"
  by code_simp

lemma toolWorld_root:
  "children (cmds toolWorld 0) = [(''run'', 5), (''help'', 6)]"
  "Func (cmds toolWorld 6) = Some (\<lambda>out f inp err. (ExitCodeFailure, None))"
  by (simp_all add: toolWorld_def zeroCommand_def rootCommand_def)

theorem help_token_shadows_child_witness:
  "children (cmds toolWorld 0) = [(''run'', 5), (''help'', 6)]
   \<and> map_of (children (cmds toolWorld 0)) ''help'' = Some 6
   \<and> Func (cmds toolWorld 6) = Some (\<lambda>out f inp err. (ExitCodeFailure, None))
   \<and> fst (Execute toolWorld 0 [''prog'', ''help'']) = Returned (ExitCodeSuccess, None)
   \<and> invoked (snd (Execute toolWorld 0 [''prog'', ''help''])) = invoked toolWorld
   \<and> visited (snd (Execute toolWorld 0 [''prog'', ''help''])) = visited toolWorld @ [0]"
proof -
  have v: "children (cmds toolWorld 0) \<noteq> [] \<or> Func (cmds toolWorld 0) \<noteq> None"
    by (simp add: toolWorld_root)
  note t = help_token_shadows_child [OF v, of "''prog''" "[]"]
  from t have i: "invoked (snd (Execute toolWorld 0 [''prog'', ''help''])) = invoked toolWorld"
    by blast
  from t have vis: "visited (snd (Execute toolWorld 0 [''prog'', ''help''])) = visited toolWorld @ [0]"
    by blast
  show ?thesis
    using v i vis toolWorld_help by (simp add: toolWorld_root)
qed

text \<open>
  C1. With exactly two arguments after \<open>help\<close>, Execute never returns the error
  \<open>can only give help with one command\<close>: helpForCommand tests \<open>len(args) > 2\<close>, so the
  first of the two is looked up as a child. In the example tree the registered child
  \<open>run\<close> has not inherited its streams yet and rendering its help panics on the nil
  writer; an unknown first argument gives \<open>unknown command\<close>; the error of the claim
  appears with three arguments.
\<close>

theorem help_with_two_arguments:
  "fst (Execute s c [arg0, ''help'', a, b])
     \<noteq> Returned (ExitCodeSerious, Some (ErrorString ''can only give help with one command''))
   \<and> fst (Execute toolWorld 0 [''prog'', ''help'', ''run'', ''extra'']) = Panicked nilDereference
   \<and> fst (Execute toolWorld 0 [''prog'', ''help'', ''nosuch'', ''extra''])
       = Returned (ExitCodeSerious, Some (ErrorString ''unknown command: nosuch''))
   \<and> fst (Execute toolWorld 0 [''prog'', ''help'', ''nosuch'', ''extra'', ''more''])
       = Returned (ExitCodeSerious, Some (ErrorString ''can only give help with one command''))"
proof -
  have "fst (Execute s c [arg0, ''help'', a, b])
     \<noteq> Returned (ExitCodeSerious, Some (ErrorString ''can only give help with one command''))"
  proof (cases "children (cmds s c) \<noteq> [] \<or> Func (cmds s c) \<noteq> None")
    case False
    show ?thesis unfolding Execute_invalid [OF False] by simp
  next
    case True
    show ?thesis
      unfolding Execute_valid [OF True]
      by (simp add: Parse_steps_help helpForCommand_def Let_def andThen_fst ExitCodeSerious_def
            ExitCodeSuccess_def split: option.splits outcome.splits)
  qed
  then show ?thesis
    by (simp add: toolWorld_help2 toolWorld_help3 toolWorld_help4)
qed


section \<open>Execute: dispatch and parse failures\<close>

lemma flagSetOf_other:
  "sub \<noteq> c \<Longrightarrow>
   flagSetOf (inheritStreams (visit (storeFlags (inheritStreams (visit s c) c) c fs) sub) sub) sub
     = flagSetOf s sub"
  by (simp add: flagSetOf_def inheritStreams_def storeFlags_def visit_def split: option.splits)

text \<open>
  C3 (as amended). At each dispatch step, after the node's own flags have been parsed
  without error, Execute inspects \<open>args[1]\<close>, the token that follows the node's name in
  the arguments as they were given (not the first token that flag parsing leaves over): if
  it is the literal \<open>help\<close>, Execute returns what helpForCommand returns; otherwise, if
  it names a registered child, Execute recurses into that child with \<open>args[1:]\<close>, and the
  child parses its own flag set, which the parent's parsing has not touched; if it names no
  child, the node's handler or help is used.
\<close>

theorem dispatch_on_second_argument:
  assumes "children (cmds s c) \<noteq> [] \<or> Func (cmds s c) \<noteq> None"
    and "Parse_steps (flagSetOf (inheritStreams (visit s c) c) c) (tok # rest) = (fs, None)"
  shows "(tok = ''help'' \<longrightarrow>
            Execute s c (arg0 # tok # rest)
              = helpForCommand (storeFlags (inheritStreams (visit s c) c) c fs) c fs)
       \<and> (tok \<noteq> ''help'' \<and> map_of (children (cmds s c)) tok = Some sub \<longrightarrow>
            Execute s c (arg0 # tok # rest)
              = Execute (storeFlags (inheritStreams (visit s c) c) c fs) sub (tok # rest))
       \<and> (tok \<noteq> ''help'' \<and> map_of (children (cmds s c)) tok = None \<longrightarrow>
            Execute s c (arg0 # tok # rest)
              = funcOrHelp (storeFlags (inheritStreams (visit s c) c) c fs) c fs)
       \<and> (sub \<noteq> c \<longrightarrow>
            flagSetOf (inheritStreams (visit (storeFlags (inheritStreams (visit s c) c) c fs) sub) sub) sub
              = flagSetOf s sub)"
  unfolding Execute_valid [OF assms(1)] using assms(2) by (auto simp add: flagSetOf_other)

lemma toolWorld_root_parse:
  "Parse_steps (flagSetOf (inheritStreams (visit toolWorld 0) 0) 0) [''run'']
     = ((NewFlagSet ''prog'' ExitOnError)\<lparr>parsed := True, args := [''run'']\<rparr>, None)"
  by code_simp

theorem dispatch_on_second_argument_witness:
  "Execute toolWorld 0 [''prog'', ''run'']
     = Execute (storeFlags (inheritStreams (visit toolWorld 0) 0) 0
                  ((NewFlagSet ''prog'' ExitOnError)\<lparr>parsed := True, args := [''run'']\<rparr>))
         5 [''run'']
   \<and> flagSetOf (inheritStreams (visit (storeFlags (inheritStreams (visit toolWorld 0) 0) 0
                  ((NewFlagSet ''prog'' ExitOnError)\<lparr>parsed := True, args := [''run'']\<rparr>)) 5) 5) 5
       = runFlags"
  using dispatch_on_second_argument [where s = toolWorld and c = 0 and tok = "''run''"
      and rest = "[]" and sub = 5 and ?arg0.0 = "''prog''"
      and fs = "(NewFlagSet ''prog'' ExitOnError)\<lparr>parsed := True, args := [''run'']\<rparr>"]
  by (simp add: toolWorld_root_parse toolWorld_root)
     (simp add: flagSetOf_def toolWorld_def zeroCommand_def)

lemma toolWorld_v_help_parse:
  "Parse_steps (flagSetOf (inheritStreams (visit toolWorld 5) 5) 5) [''-v'', ''help'']
     = (runFlags\<lparr>parsed := True, args := [''help''], actual := [''v''],
           formal := [\<lparr>Flag_Name = ''v'', Flag_Usage = ''be verbose'',
                       Flag_Value = boolValue True, DefValue = ''false''\<rparr>]\<rparr>, None)"
  by code_simp

lemma toolWorld_v_help: "fst (Execute toolWorld 5 [''run'', ''-v'', ''help'']) = Returned (ExitCodeFailure, None)"
  by code_simp

lemma toolWorld_v_help_invoked:
  "invoked (snd (Execute toolWorld 5 [''run'', ''-v'', ''help''])) = [(5, ExitCodeFailure, None)]"
  by code_simp

lemma toolWorld_v_help_path:
  "fst (helpForCommand
         (storeFlags (inheritStreams (visit toolWorld 5) 5) 5
            (fst (Parse_steps (flagSetOf (inheritStreams (visit toolWorld 5) 5) 5) [''-v'', ''help''])))
         5 (fst (Parse_steps (flagSetOf (inheritStreams (visit toolWorld 5) 5) 5) [''-v'', ''help''])))
     = Returned (ExitCodeSuccess, None)"
  by code_simp

text \<open>
  C3 as stated fails: for \<open>run -v help\<close> the flags parse, the first remaining token is
  \<open>help\<close>, and yet Execute invokes the handler of \<open>run\<close> and returns its failure code,
  where the help path would have returned success.
\<close>

theorem first_remaining_token_counterexample:
  "snd (Parse_steps (flagSetOf (inheritStreams (visit toolWorld 5) 5) 5) [''-v'', ''help'']) = None
   \<and> args (fst (Parse_steps (flagSetOf (inheritStreams (visit toolWorld 5) 5) 5) [''-v'', ''help'']))
       = [''help'']
   \<and> fst (Execute toolWorld 5 [''run'', ''-v'', ''help'']) = Returned (ExitCodeFailure, None)
   \<and> invoked (snd (Execute toolWorld 5 [''run'', ''-v'', ''help''])) = [(5, ExitCodeFailure, None)]
   \<and> fst (helpForCommand
         (storeFlags (inheritStreams (visit toolWorld 5) 5) 5
            (fst (Parse_steps (flagSetOf (inheritStreams (visit toolWorld 5) 5) 5) [''-v'', ''help''])))
         5 (fst (Parse_steps (flagSetOf (inheritStreams (visit toolWorld 5) 5) 5) [''-v'', ''help''])))
       = Returned (ExitCodeSuccess, None)"
  by (simp add: toolWorld_v_help toolWorld_v_help_invoked toolWorld_v_help_path)
     (simp add: toolWorld_v_help_parse)


lemma flagSetOf_errorHandling:
  "errorHandling (flagSetOf (inheritStreams (visit s c) c) c) =
     (case Flags (cmds s c) of None \<Rightarrow> ExitOnError | Some f \<Rightarrow> errorHandling f)"
  by (simp add: flagSetOf_def NewFlagSet_def visit_def split: option.splits)

text \<open>
  C4 (as amended). When parsing the node's flag set over \<open>args[1:]\<close> fails, the flag set
  is the node's own and continues on error, and the usage callback (the rendering of the
  node's help) returns, Execute returns the serious exit code (2) paired with the parse
  error. The empty flag set that Execute makes for a node without one exits on error:
  Execute then never returns; once the usage callback has returned, the process exits
  inside Parse, with status 0 for the help request and 2 for any other failure.
\<close>

theorem parse_failure_result:
  assumes "children (cmds s c) \<noteq> [] \<or> Func (cmds s c) \<noteq> None"
    and "Parse_steps (flagSetOf (inheritStreams (visit s c) c) c) rest = (fs, Some pe)"
  shows "(Flags (cmds s c) = Some f0 \<and> errorHandling f0 = ContinueOnError
            \<and> fst (reportParseError (storeFlags (inheritStreams (visit s c) c) c fs) c fs pe) = Returned ()
          \<longrightarrow> fst (Execute s c (arg0 # rest)) = Returned (ExitCodeSerious, Some (parseError pe)))
       \<and> (Flags (cmds s c) = None \<longrightarrow>
            (\<forall>r. fst (Execute s c (arg0 # rest)) \<noteq> Returned r)
            \<and> (fst (reportParseError (storeFlags (inheritStreams (visit s c) c) c fs) c fs pe) = Returned ()
                 \<longrightarrow> fst (Execute s c (arg0 # rest)) = Exited (if pe = HelpRequested then 0 else 2)))"
proof -
  have eh: "errorHandling fs =
     (case Flags (cmds s c) of None \<Rightarrow> ExitOnError | Some f \<Rightarrow> errorHandling f)"
    using Parse_steps_errorHandling [of "flagSetOf (inheritStreams (visit s c) c) c" rest] assms(2)
    by (simp add: flagSetOf_errorHandling)
  have e: "Execute s c (arg0 # rest) = parseFailure (storeFlags (inheritStreams (visit s c) c) c fs) c fs pe"
    using assms by (rule Execute_parse_failed)
  show ?thesis
    unfolding e
    using eh
    by (cases pe)
       (auto simp: parseFailure_def andThen_fst parseError_def split: outcome.splits)
qed

lemma toolWorld_run_x_parse:
  "snd (Parse_steps (flagSetOf (inheritStreams (visit toolWorld 5) 5) 5) [''-x''])
     = Some (Failed ''flag provided but not defined: -x'')"
  by code_simp

lemma toolWorld_run_x_report:
  "fst (reportParseError
          (storeFlags (inheritStreams (visit toolWorld 5) 5) 5
             (fst (Parse_steps (flagSetOf (inheritStreams (visit toolWorld 5) 5) 5) [''-x''])))
          5 (fst (Parse_steps (flagSetOf (inheritStreams (visit toolWorld 5) 5) 5) [''-x'']))
          (Failed ''flag provided but not defined: -x'')) = Returned ()"
  by code_simp

lemma toolWorld_root_x_parse:
  "snd (Parse_steps (flagSetOf (inheritStreams (visit toolWorld 0) 0) 0) [''-x''])
     = Some (Failed ''flag provided but not defined: -x'')"
  by code_simp

lemma toolWorld_root_x_report:
  "fst (reportParseError
          (storeFlags (inheritStreams (visit toolWorld 0) 0) 0
             (fst (Parse_steps (flagSetOf (inheritStreams (visit toolWorld 0) 0) 0) [''-x''])))
          0 (fst (Parse_steps (flagSetOf (inheritStreams (visit toolWorld 0) 0) 0) [''-x'']))
          (Failed ''flag provided but not defined: -x'')) = Returned ()"
  by code_simp

lemma toolWorld_flags:
  "Flags (cmds toolWorld 5) = Some runFlags"
  "Flags (cmds toolWorld 0) = None"
  "errorHandling runFlags = ContinueOnError"
  by (simp_all add: toolWorld_def zeroCommand_def rootCommand_def runFlags_def NewFlagSet_def)

theorem parse_failure_result_witness:
  "fst (Execute toolWorld 5 [''run'', ''-x''])
     = Returned (ExitCodeSerious, Some (ErrorString ''flag provided but not defined: -x''))
   \<and> fst (Execute toolWorld 0 [''prog'', ''-x'']) = Exited 2"
  using parse_failure_result [where s = toolWorld and c = 5 and rest = "[''-x'']"
      and fs = "fst (Parse_steps (flagSetOf (inheritStreams (visit toolWorld 5) 5) 5) [''-x''])"
      and pe = "Failed ''flag provided but not defined: -x''" and ?f0.0 = runFlags
      and ?arg0.0 = "''run''"]
    parse_failure_result [where s = toolWorld and c = 0 and rest = "[''-x'']"
      and fs = "fst (Parse_steps (flagSetOf (inheritStreams (visit toolWorld 0) 0) 0) [''-x''])"
      and pe = "Failed ''flag provided but not defined: -x''" and ?f0.0 = runFlags
      and ?arg0.0 = "''prog''"]
  by (simp add: prod_eq_iff toolWorld_run_x_parse toolWorld_run_x_report toolWorld_root_x_parse
        toolWorld_root_x_report toolWorld_flags toolWorld_root toolWorld_run_node parseError_def)

text \<open>
  C4 as stated fails for the synthesized flag set: the root of the example has no flag
  set, \<open>-x\<close> is not defined, and the process exits with status 2 instead of Execute
  returning.
\<close>

theorem synthesized_flag_set_counterexample:
  "Flags (cmds toolWorld 0) = None
   \<and> snd (Parse_steps (flagSetOf (inheritStreams (visit toolWorld 0) 0) 0) [''-x''])
       = Some (Failed ''flag provided but not defined: -x'')
   \<and> fst (Execute toolWorld 0 [''prog'', ''-x'']) = Exited 2"
  by (simp add: toolWorld_flags toolWorld_root_x_parse toolWorld_bad_flag)


section \<open>Rendering help is deterministic\<close>

lemma getNames_agree_Some:
  assumes agree: "\<And>a. parent (cs' a) = parent (cs a) \<and> Name (cs' a) = Name (cs a)"
    and g: "getNames cs c = Some ns"
  shows "getNames cs' c = Some ns"
proof -
  have "cs = cs \<longrightarrow> getNames cs' c = Some ns"
  proof (rule getNames.raw_induct
      [where P = "\<lambda>cs0 c0 ns0. cs0 = cs \<longrightarrow> getNames cs' c0 = Some ns0"])
    show "getNames cs c = Some ns" by (rule g)
  next
    fix g0 cs0 c0 ns0
    assume IH: "\<And>c b y. g0 c b = Some y \<Longrightarrow> c = cs \<longrightarrow> getNames cs' b = Some y"
      and eq: "(case parent (cs0 c0) of None \<Rightarrow> Some [Name (cs0 c0)]
                | Some p \<Rightarrow> Option.bind (g0 cs0 p) (\<lambda>ns. Some (ns @ [Name (cs0 c0)]))) = Some ns0"
    show "cs0 = cs \<longrightarrow> getNames cs' c0 = Some ns0"
    proof
      assume c: "cs0 = cs"
      show "getNames cs' c0 = Some ns0"
      proof (cases "parent (cs c0)")
        case None
        with eq c have "ns0 = [Name (cs c0)]" by simp
        moreover have "getNames cs' c0 = Some [Name (cs' c0)]"
          using None agree [of c0] by (subst getNames.simps) simp
        ultimately show ?thesis using agree [of c0] by simp
      next
        case (Some p)
        with eq c obtain ms where ms: "g0 cs p = Some ms" and n: "ns0 = ms @ [Name (cs c0)]"
          by (auto simp: bind_eq_Some_conv)
        from IH [OF ms] have "getNames cs' p = Some ms" by simp
        then have "getNames cs' c0 = Some (ms @ [Name (cs' c0)])"
          using Some agree [of c0] by (subst getNames.simps) simp
        then show ?thesis using n agree [of c0] by simp
      qed
    qed
  qed
  then show ?thesis by simp
qed

lemma getNames_agree:
  assumes agree: "\<And>a. parent (cs' a) = parent (cs a) \<and> Name (cs' a) = Name (cs a)"
  shows "getNames cs' c = getNames cs c"
proof (cases "getNames cs c")
  case (Some ns)
  then show ?thesis using getNames_agree_Some [OF agree] by simp
next
  case None
  show ?thesis
  proof (cases "getNames cs' c")
    case None
    with \<open>getNames cs c = None\<close> show ?thesis by simp
  next
    case (Some ns)
    have "\<And>a. parent (cs a) = parent (cs' a) \<and> Name (cs a) = Name (cs' a)"
      using agree by simp
    from getNames_agree_Some [OF this Some] None show ?thesis by simp
  qed
qed


lemma sort_mset_eq: "mset xs = mset ys \<Longrightarrow> sort xs = sort (ys :: string list)"
  by (rule properties_for_sort) simp_all

lemma helpResult_agree:
  assumes names: "\<And>a. Name (cs' a) = Name (cs a) \<and> Short (cs' a) = Short (cs a)"
    and node: "Short (cs' c) = Short (cs c)" "Usage (cs' c) = Usage (cs c)" "Long (cs' c) = Long (cs c)"
      "Flags (cs' c) = Flags (cs c)" "longestName (cs' c) = longestName (cs c)"
    and dist: "distinct (map fst (children (cs c)))"
    and perm: "mset (children (cs' c)) = mset (children (cs c))"
  shows "helpResult cs' c ns = helpResult cs c ns"
proof -
  have keys: "mset (map fst (children (cs' c))) = mset (map fst (children (cs c)))"
    using perm by (metis mset_map)
  then have srt: "sort (map fst (children (cs' c))) = sort (map fst (children (cs c)))"
    by (rule sort_mset_eq)
  have emp: "(children (cs' c) = []) = (children (cs c) = [])"
    using perm by (metis mset_zero_iff)
  have dist': "distinct (map fst (children (cs' c)))"
    using keys dist by (metis mset_eq_imp_distinct_iff)
  have "set (children (cs' c)) = set (children (cs c))"
    using perm by (metis set_mset_mset)
  then have mp: "map_of (children (cs' c)) = map_of (children (cs c))"
    using dist dist' by (simp add: map_of_inject_set)
  have line: "commandLine cs' (cs' c) = commandLine cs (cs c)"
    by (rule ext) (simp add: commandLine_def mp node names split: option.splits)
  show ?thesis
    unfolding helpResult_def Let_def
    by (simp add: srt emp line node)
qed

lemma helpText_agree:
  assumes names: "\<And>a. parent (cmds s' a) = parent (cmds s a) \<and> Name (cmds s' a) = Name (cmds s a)
                      \<and> Short (cmds s' a) = Short (cmds s a)"
    and node: "Usage (cmds s' c) = Usage (cmds s c)" "Long (cmds s' c) = Long (cmds s c)"
      "Flags (cmds s' c) = Flags (cmds s c)" "longestName (cmds s' c) = longestName (cmds s c)"
    and dist: "distinct (map fst (children (cmds s c)))"
    and perm: "mset (children (cmds s' c)) = mset (children (cmds s c))"
  shows "helpText s' c = helpText s c"
proof -
  have g: "getNames (cmds s') c = getNames (cmds s) c"
    by (rule getNames_agree) (simp add: names)
  have h: "helpResult (cmds s') c = helpResult (cmds s) c"
    by (rule ext, rule helpResult_agree) (simp_all add: names node dist perm)
  show ?thesis by (simp add: helpText_def g h)
qed

lemma showHelp_Returned:
  "showHelp s c = (Returned (), s1) \<Longrightarrow>
   \<exists>w t. stdout (cmds s c) = Some w \<and> helpText s c = Some t
         \<and> s1 = s\<lparr>written := (written s)(w := written s w @ t)\<rparr>"
  by (auto simp: showHelp_def Fprint_def split: option.splits)

text \<open>
  C10. Rendering the help of a node twice in a row writes the same text twice to the same
  writer: showHelp changes nothing but what has been written, and the text is a function of
  the commands alone. Of the commands, the text depends only on the parent links, names and
  Short texts, on the node's own Usage, Long, flag set and longest-name width, and on the
  node's map of children, not on the order in which the map yields its keys (which Go
  leaves open): any two worlds that agree on these render the same text.
\<close>

theorem help_rendering_deterministic:
  "(showHelp s c = (Returned (), s1) \<and> showHelp s1 c = (Returned (), s2) \<longrightarrow>
      (\<exists>w t. stdout (cmds s c) = Some w \<and> helpText s c = Some t
         \<and> written s1 = (written s)(w := written s w @ t)
         \<and> written s2 = (written s1)(w := written s1 w @ t)
         \<and> cmds s2 = cmds s))
   \<and> helpText (snd (showHelp s c)) c = helpText s c
   \<and> ((\<forall>a. parent (cmds s' a) = parent (cmds s a) \<and> Name (cmds s' a) = Name (cmds s a)
             \<and> Short (cmds s' a) = Short (cmds s a))
        \<and> Usage (cmds s' c) = Usage (cmds s c) \<and> Long (cmds s' c) = Long (cmds s c)
        \<and> Flags (cmds s' c) = Flags (cmds s c) \<and> longestName (cmds s' c) = longestName (cmds s c)
        \<and> distinct (map fst (children (cmds s c)))
        \<and> mset (children (cmds s' c)) = mset (children (cmds s c))
        \<longrightarrow> helpText s' c = helpText s c)"
proof -
  have A: "showHelp s c = (Returned (), s1) \<and> showHelp s1 c = (Returned (), s2) \<longrightarrow>
      (\<exists>w t. stdout (cmds s c) = Some w \<and> helpText s c = Some t
         \<and> written s1 = (written s)(w := written s w @ t)
         \<and> written s2 = (written s1)(w := written s1 w @ t)
         \<and> cmds s2 = cmds s)"
  proof
    assume a: "showHelp s c = (Returned (), s1) \<and> showHelp s1 c = (Returned (), s2)"
    then obtain w t where 1: "stdout (cmds s c) = Some w" "helpText s c = Some t"
      "s1 = s\<lparr>written := (written s)(w := written s w @ t)\<rparr>"
      using showHelp_Returned [of s c s1] by blast
    from a obtain w' t' where 2: "stdout (cmds s1 c) = Some w'" "helpText s1 c = Some t'"
      "s2 = s1\<lparr>written := (written s1)(w' := written s1 w' @ t')\<rparr>"
      using showHelp_Returned [of s1 c s2] by blast
    have c1: "cmds s1 = cmds s" using 1 by simp
    then have "helpText s1 c = helpText s c" by (rule helpText_cmds)
    with 1 2 c1 have "w' = w" "t' = t" by simp_all
    with 1 2 c1 show "\<exists>w t. stdout (cmds s c) = Some w \<and> helpText s c = Some t
         \<and> written s1 = (written s)(w := written s w @ t)
         \<and> written s2 = (written s1)(w := written s1 w @ t)
         \<and> cmds s2 = cmds s"
      by (intro exI [of _ w] exI [of _ t]) simp
  qed
  have B: "helpText (snd (showHelp s c)) c = helpText s c"
    by (rule helpText_cmds) simp
  have C: "(\<forall>a. parent (cmds s' a) = parent (cmds s a) \<and> Name (cmds s' a) = Name (cmds s a)
             \<and> Short (cmds s' a) = Short (cmds s a))
        \<and> Usage (cmds s' c) = Usage (cmds s c) \<and> Long (cmds s' c) = Long (cmds s c)
        \<and> Flags (cmds s' c) = Flags (cmds s c) \<and> longestName (cmds s' c) = longestName (cmds s c)
        \<and> distinct (map fst (children (cmds s c)))
        \<and> mset (children (cmds s' c)) = mset (children (cmds s c))
        \<longrightarrow> helpText s' c = helpText s c"
    by (auto intro!: helpText_agree)
  show ?thesis by (rule conjI [OF A conjI [OF B C]])
qed


lemma toolWorld_showHelp: "fst (showHelp toolWorld 0) = Returned ()"
  by code_simp

lemma toolWorld_showHelp_again: "fst (showHelp (snd (showHelp toolWorld 0)) 0) = Returned ()"
  by code_simp

lemma toolWorld_root_stdout:
  "stdout (cmds toolWorld 0) = Some OsStdout" "written toolWorld = (\<lambda>w. [])"
  by (simp_all add: toolWorld_def rootCommand_def zeroCommand_def)

lemma swappedWorld_agrees:
  "\<forall>a. parent (cmds swappedWorld a) = parent (cmds toolWorld a)
       \<and> Name (cmds swappedWorld a) = Name (cmds toolWorld a)
       \<and> Short (cmds swappedWorld a) = Short (cmds toolWorld a)"
  "Usage (cmds swappedWorld 0) = Usage (cmds toolWorld 0)"
  "Long (cmds swappedWorld 0) = Long (cmds toolWorld 0)"
  "Flags (cmds swappedWorld 0) = Flags (cmds toolWorld 0)"
  "longestName (cmds swappedWorld 0) = longestName (cmds toolWorld 0)"
  "children (cmds swappedWorld 0) = [(''help'', 6), (''run'', 5)]"
  by (simp_all add: swappedWorld_def)

theorem help_rendering_deterministic_witness:
  "(\<exists>t. helpText toolWorld 0 = Some t
        \<and> written (snd (showHelp toolWorld 0)) OsStdout = t
        \<and> written (snd (showHelp (snd (showHelp toolWorld 0)) 0)) OsStdout = t @ t)
   \<and> helpText swappedWorld 0 = helpText toolWorld 0"
proof -
  have r1: "showHelp toolWorld 0 = (Returned (), snd (showHelp toolWorld 0))"
    by (simp add: prod_eq_iff toolWorld_showHelp)
  have r2: "showHelp (snd (showHelp toolWorld 0)) 0
              = (Returned (), snd (showHelp (snd (showHelp toolWorld 0)) 0))"
    by (simp add: prod_eq_iff toolWorld_showHelp_again)
  note t = help_rendering_deterministic [of toolWorld 0 "snd (showHelp toolWorld 0)"
      "snd (showHelp (snd (showHelp toolWorld 0)) 0)" swappedWorld]
  from t r1 r2 obtain w t where
    w: "stdout (cmds toolWorld 0) = Some w" and h: "helpText toolWorld 0 = Some t"
    and w1: "written (snd (showHelp toolWorld 0)) = (written toolWorld)(w := written toolWorld w @ t)"
    and w2: "written (snd (showHelp (snd (showHelp toolWorld 0)) 0))
              = (written (snd (showHelp toolWorld 0)))(w := written (snd (showHelp toolWorld 0)) w @ t)"
    by blast
  from w have "w = OsStdout" by (simp add: toolWorld_root_stdout)
  with h w1 w2 have first: "\<exists>t. helpText toolWorld 0 = Some t
        \<and> written (snd (showHelp toolWorld 0)) OsStdout = t
        \<and> written (snd (showHelp (snd (showHelp toolWorld 0)) 0)) OsStdout = t @ t"
    by (simp add: toolWorld_root_stdout)
  have "mset (children (cmds swappedWorld 0)) = mset (children (cmds toolWorld 0))"
    by (simp add: swappedWorld_agrees toolWorld_root)
  moreover have "distinct (map fst (children (cmds toolWorld 0)))"
    by (simp add: toolWorld_root)
  ultimately have "helpText swappedWorld 0 = helpText toolWorld 0"
    using t swappedWorld_agrees by blast
  with first show ?thesis by simp
qed


section \<open>The default suffix of a flag line\<close>

lemma UnquoteUsage_DefValue [simp]: "UnquoteUsage (fl\<lparr>DefValue := d\<rparr>) = UnquoteUsage fl"
  by (simp add: UnquoteUsage_def Let_def)

lemma UnquoteUsage_same_type:
  "zeroValue v' = zeroValue (Flag_Value fl) \<Longrightarrow> UnquoteUsage (fl\<lparr>Flag_Value := v'\<rparr>) = UnquoteUsage fl"
  by (cases v'; cases "Flag_Value fl") (simp_all add: UnquoteUsage_def Let_def)

lemma is_stringValue_same_type:
  "zeroValue v' = zeroValue v \<Longrightarrow> is_stringValue v' = is_stringValue v"
  by (cases v'; cases v) simp_all

lemma flagLine_form:
  "\<exists>stem. \<forall>d. flagLine b (fl\<lparr>DefValue := d\<rparr>)
          = stem @ (if d = Value_String (zeroValue (Flag_Value fl)) then []
                    else '' (default '' @ (if is_stringValue (Flag_Value fl) then Quote d else d) @ '')'')
            @ [NL]"
proof -
  obtain name usage where u: "UnquoteUsage fl = (name, usage)" by (cases "UnquoteUsage fl")
  define b2 where "b2 = (if length name > 0 then (b @ ''  -'' @ Flag_Name fl) @ '' '' @ name
                          else b @ ''  -'' @ Flag_Name fl)"
  define stem where "stem = (if length b2 \<le> 4 then b2 @ [TAB] else b2 @ ''    '' @ [TAB])
                             @ ReplaceAll_NL usage ([NL] @ ''    '' @ [TAB])"
  have "flagLine b (fl\<lparr>DefValue := d\<rparr>)
          = stem @ (if d = Value_String (zeroValue (Flag_Value fl)) then []
                    else '' (default '' @ (if is_stringValue (Flag_Value fl) then Quote d else d) @ '')'')
            @ [NL]" for d
    by (simp add: flagLine_def Let_def u isZeroValue_def stem_def b2_def)
  then show ?thesis by blast
qed

lemma flagLine_split:
  "flagLine b fl =
     butlast (flagLine b (fl\<lparr>DefValue := Value_String (zeroValue (Flag_Value fl))\<rparr>))
     @ (if DefValue fl = Value_String (zeroValue (Flag_Value fl)) then []
        else '' (default ''
             @ (if is_stringValue (Flag_Value fl) then Quote (DefValue fl) else DefValue fl)
             @ '')'')
     @ [NL]"
proof -
  obtain stem where st:
    "\<And>d. flagLine b (fl\<lparr>DefValue := d\<rparr>)
          = stem @ (if d = Value_String (zeroValue (Flag_Value fl)) then []
                    else '' (default '' @ (if is_stringValue (Flag_Value fl) then Quote d else d) @ '')'')
            @ [NL]"
    using flagLine_form [of b fl] by blast
  have z: "butlast (flagLine b (fl\<lparr>DefValue := Value_String (zeroValue (Flag_Value fl))\<rparr>)) = stem"
    by (simp add: st)
  have "flagLine b fl = flagLine b (fl\<lparr>DefValue := DefValue fl\<rparr>)" by simp
  also have "\<dots> = stem @ (if DefValue fl = Value_String (zeroValue (Flag_Value fl)) then []
                    else '' (default '' @ (if is_stringValue (Flag_Value fl) then Quote (DefValue fl) else DefValue fl) @ '')'')
            @ [NL]"
    by (rule st)
  finally show ?thesis unfolding z .
qed

lemma flagLine_appends: "take (length b) (flagLine b fl) = b"
  by (simp add: flagLine_def Let_def split: prod.splits)

lemma flagLine_same_type:
  "zeroValue v' = zeroValue (Flag_Value fl) \<Longrightarrow> flagLine b (fl\<lparr>Flag_Value := v'\<rparr>) = flagLine b fl"
  by (simp add: flagLine_def isZeroValue_def Let_def UnquoteUsage_same_type
        is_stringValue_same_type [of v' "Flag_Value fl"] split: prod.splits)

text \<open>
  C2 (as amended). In rendered help, the line of a defined flag carries a
  \<open> (default <value>)\<close> suffix exactly when the flag's DefValue (the default text recorded
  when the flag was defined) differs from the text of its value type's zero value: the line
  is the line the same flag has with the zero default, with the suffix put before the final
  newline when the DefValue is not the zero text, and nothing put there when it is. The
  flag's current value plays no part: a value of the same type gives the same line. When
  the suffix is shown for a bool flag the default is rendered as it is, unquoted; for a
  value of the package's own \<open>stringValue\<close> type it is rendered in quotes. The line is
  appended to what the builder holds.
\<close>

theorem default_suffix_iff_DefValue_nonzero:
  "(DefValue fl = Value_String (zeroValue (Flag_Value fl)) \<longrightarrow>
      flagLine b fl
        = butlast (flagLine b (fl\<lparr>DefValue := Value_String (zeroValue (Flag_Value fl))\<rparr>)) @ [NL])
   \<and> (DefValue fl \<noteq> Value_String (zeroValue (Flag_Value fl)) \<longrightarrow>
        (\<exists>shown.
           flagLine b fl
             = butlast (flagLine b (fl\<lparr>DefValue := Value_String (zeroValue (Flag_Value fl))\<rparr>))
               @ '' (default '' @ shown @ '')'' @ [NL]
           \<and> ((\<exists>v. Flag_Value fl = boolValue v) \<longrightarrow> shown = DefValue fl)
           \<and> ((\<exists>v. Flag_Value fl = stringValue v) \<longrightarrow> shown = Quote (DefValue fl))))
   \<and> (zeroValue v' = zeroValue (Flag_Value fl) \<longrightarrow>
        flagLine b (fl\<lparr>Flag_Value := v'\<rparr>) = flagLine b fl)
   \<and> take (length b) (flagLine b fl) = b"
proof -
  have A: "DefValue fl = Value_String (zeroValue (Flag_Value fl)) \<longrightarrow>
      flagLine b fl
        = butlast (flagLine b (fl\<lparr>DefValue := Value_String (zeroValue (Flag_Value fl))\<rparr>)) @ [NL]"
    using flagLine_split [of b fl] by simp
  have B: "DefValue fl \<noteq> Value_String (zeroValue (Flag_Value fl)) \<longrightarrow>
        (\<exists>shown.
           flagLine b fl
             = butlast (flagLine b (fl\<lparr>DefValue := Value_String (zeroValue (Flag_Value fl))\<rparr>))
               @ '' (default '' @ shown @ '')'' @ [NL]
           \<and> ((\<exists>v. Flag_Value fl = boolValue v) \<longrightarrow> shown = DefValue fl)
           \<and> ((\<exists>v. Flag_Value fl = stringValue v) \<longrightarrow> shown = Quote (DefValue fl)))"
  proof
    assume nz: "DefValue fl \<noteq> Value_String (zeroValue (Flag_Value fl))"
    show "\<exists>shown.
           flagLine b fl
             = butlast (flagLine b (fl\<lparr>DefValue := Value_String (zeroValue (Flag_Value fl))\<rparr>))
               @ '' (default '' @ shown @ '')'' @ [NL]
           \<and> ((\<exists>v. Flag_Value fl = boolValue v) \<longrightarrow> shown = DefValue fl)
           \<and> ((\<exists>v. Flag_Value fl = stringValue v) \<longrightarrow> shown = Quote (DefValue fl))"
      using flagLine_split [of b fl] nz
      by (intro exI [of _ "if is_stringValue (Flag_Value fl) then Quote (DefValue fl) else DefValue fl"])
         auto
  qed
  have C: "zeroValue v' = zeroValue (Flag_Value fl) \<longrightarrow>
        flagLine b (fl\<lparr>Flag_Value := v'\<rparr>) = flagLine b fl"
    by (simp add: flagLine_same_type)
  have D: "take (length b) (flagLine b fl) = b" by (rule flagLine_appends)
  show ?thesis by (rule conjI [OF A conjI [OF B conjI [OF C D]]])
qed

lemma runFlags_parse_v:
  "fst (Parse_steps runFlags [''-v''])
     = runFlags\<lparr>parsed := True, args := [], actual := [''v''],
           formal := [\<lparr>Flag_Name = ''v'', Flag_Usage = ''be verbose'',
                       Flag_Value = boolValue True, DefValue = ''false''\<rparr>]\<rparr>"
  by code_simp

lemma runFlags_help_after_v:
  "flagHelp (Some (fst (Parse_steps runFlags [''-v'']))) = ''  -v'' @ [TAB] @ ''be verbose'' @ [NL]"
  by code_simp

lemma nameFlags_help:
  "flagHelp (Some nameFlags)
     = ''  -name string    '' @ [TAB] @ ''who to greet (default joe)'' @ [NL]"
  by code_simp

text \<open>
  C2 as stated fails. After \<open>-v\<close> has been parsed, the current value of the bool flag is
  true, which is not the zero value, and the line carries no suffix. And the default of a
  string flag defined through package flag is rendered without quotes: its value is a
  \<open>*flag.stringValue\<close>, not the \<open>*stringValue\<close> of package commands that flagHelp asks
  for.
\<close>

theorem current_value_counterexample:
  "map Flag_Value (formal (fst (Parse_steps runFlags [''-v'']))) = [boolValue True]
   \<and> Value_String (boolValue True) \<noteq> Value_String (zeroValue (boolValue True))
   \<and> flagHelp (Some (fst (Parse_steps runFlags [''-v''])))
       = ''  -v'' @ [TAB] @ ''be verbose'' @ [NL]
   \<and> map Flag_Value (formal nameFlags) = [flag_stringValue ''joe'']
   \<and> flagHelp (Some nameFlags)
       = ''  -name string    '' @ [TAB] @ ''who to greet (default joe)'' @ [NL]"
  by (simp add: runFlags_help_after_v nameFlags_help)
     (simp add: runFlags_parse_v nameFlags_def)

theorem default_suffix_iff_DefValue_nonzero_witness:
  "flagLine [] \<lparr>Flag_Name = ''v'', Flag_Usage = ''be verbose'',
                 Flag_Value = boolValue False, DefValue = ''true''\<rparr>
     = ''  -v'' @ [TAB] @ ''be verbose (default true)'' @ [NL]
   \<and> flagLine [] \<lparr>Flag_Name = ''v'', Flag_Usage = ''be verbose'',
                   Flag_Value = boolValue True, DefValue = ''false''\<rparr>
       = ''  -v'' @ [TAB] @ ''be verbose'' @ [NL]
   \<and> flagLine [] \<lparr>Flag_Name = ''s'', Flag_Usage = ''text'',
                   Flag_Value = stringValue ''a'', DefValue = ''a''\<rparr>
       = ''  -s value    '' @ [TAB] @ ''text (default '' @ [CHR 0x22] @ ''a'' @ [CHR 0x22] @ '')'' @ [NL]"
  using default_suffix_iff_DefValue_nonzero [of
      "\<lparr>Flag_Name = ''v'', Flag_Usage = ''be verbose'', Flag_Value = boolValue False, DefValue = ''true''\<rparr>"
      "[]" "boolValue True"]
    default_suffix_iff_DefValue_nonzero [of
      "\<lparr>Flag_Name = ''v'', Flag_Usage = ''be verbose'', Flag_Value = boolValue True, DefValue = ''false''\<rparr>"
      "[]" "boolValue False"]
    default_suffix_iff_DefValue_nonzero [of
      "\<lparr>Flag_Name = ''s'', Flag_Usage = ''text'', Flag_Value = stringValue ''a'', DefValue = ''a''\<rparr>"
      "[]" "stringValue []"]
  by (simp add: flagLine_def isZeroValue_def UnquoteUsage_def Let_def backquote_def
        ReplaceAll_NL_def NL_def TAB_def Quote_def quoteChar_def)


section \<open>Stream inheritance\<close>

lemma RegisterChild_streams:
  "streamsOf (cmds (snd (RegisterChild s c cmd)) a) = streamsOf (cmds s a)"
  by (simp add: RegisterChild_def Let_def streamsOf_def)

lemma inheritStreams_idem:
  "inheritStreams (visit (inheritStreams s c) c) c = inheritStreams (visit s c) c"
proof (cases "parent (cmds s c)")
  case None
  then show ?thesis by (simp add: inheritStreams_def visit_def)
next
  case (Some p)
  show ?thesis
  proof (cases "p = c")
    case True
    with Some show ?thesis by (simp add: inheritStreams_def visit_def)
  next
    case False
    with Some show ?thesis by (simp add: inheritStreams_def visit_def)
  qed
qed

lemma Execute_after_inherit:
  assumes "children (cmds s c) \<noteq> [] \<or> Func (cmds s c) \<noteq> None"
  shows "Execute (inheritStreams s c) c (arg0 # rest) = Execute s c (arg0 # rest)"
proof -
  have v: "children (cmds (inheritStreams s c) c) \<noteq> [] \<or> Func (cmds (inheritStreams s c) c) \<noteq> None"
    using assms by simp
  show ?thesis
    unfolding Execute_valid [OF v] Execute_valid [OF assms] inheritStreams_idem ..
qed

lemma inheritStreams_parent:
  "parent (cmds s c) = Some p \<Longrightarrow> streamsOf (cmds (inheritStreams s c) c) = streamsOf (cmds s p)"
  by (simp add: inheritStreams_def streamsOf_def)

lemma inheritStreams_root:
  "parent (cmds s c) = None \<Longrightarrow> inheritStreams s c = s"
  by (simp add: inheritStreams_def)

lemma inheritStreams_overwrites:
  assumes "parent (cmds s c) = Some p" "p \<noteq> c"
  shows "inheritStreams (visit (s\<lparr>cmds := (cmds s)(c := (cmds s c)\<lparr>stdin := i, stdout := ou, stderr := e\<rparr>)\<rparr>) c) c
           = inheritStreams (visit s c) c"
  using assms by (simp add: inheritStreams_def visit_def)

lemma Execute_own_streams_irrelevant:
  assumes "children (cmds s c) \<noteq> [] \<or> Func (cmds s c) \<noteq> None"
    and "parent (cmds s c) = Some p" "p \<noteq> c"
  shows "Execute (s\<lparr>cmds := (cmds s)(c := (cmds s c)\<lparr>stdin := i, stdout := ou, stderr := e\<rparr>)\<rparr>) c (arg0 # rest)
           = Execute s c (arg0 # rest)"
proof -
  let ?s = "s\<lparr>cmds := (cmds s)(c := (cmds s c)\<lparr>stdin := i, stdout := ou, stderr := e\<rparr>)\<rparr>"
  have v: "children (cmds ?s c) \<noteq> [] \<or> Func (cmds ?s c) \<noteq> None"
    using assms(1) by simp
  show ?thesis
    unfolding Execute_valid [OF v] Execute_valid [OF assms(1)]
      inheritStreams_overwrites [OF assms(2,3)] ..
qed


lemma funcOrHelp_frame [simp]:
  "cmds (snd (funcOrHelp s c f)) = cmds s"
  "visited (snd (funcOrHelp s c f)) = visited s"
  by (simp_all add: funcOrHelp_def invokeFunc_def Let_def split: option.splits)

lemma cmds_inherit_visit [simp]: "cmds (inheritStreams (visit s c) c) = cmds (inheritStreams s c)"
  by (simp add: inheritStreams_def visit_def split: option.splits)

lemma streamsOf_storeFlags [simp]:
  "streamsOf (cmds (storeFlags s c f) n) = streamsOf (cmds s n)"
  by (simp add: streamsOf_def)

lemma streamsOf_inherit_other:
  "n \<noteq> c \<Longrightarrow> streamsOf (cmds (inheritStreams s c) n) = streamsOf (cmds s n)"
  by (simp add: inheritStreams_def split: option.splits)

lemma treeLinked_step [simp]:
  "treeLinked (storeFlags (inheritStreams (visit s c) c) c fs) = treeLinked s"
  by (simp add: treeLinked_def)

lemma Execute_streams_local:
  assumes c: "cmds s' = cmds (storeFlags (inheritStreams (visit s c) c) c fs)"
    and v: "visited s' = visited (storeFlags (inheritStreams (visit s c) c) c fs)"
  shows "\<exists>new. visited s' = visited s @ c # new
        \<and> (\<forall>n \<in> set (c # new). streamsOf (cmds s' n) = streamsOf (cmds (inheritStreams s c) c))
        \<and> (\<forall>n. n \<notin> set (c # new) \<longrightarrow> streamsOf (cmds s' n) = streamsOf (cmds s n))"
  by (rule exI [of _ "[]"]) (simp add: c v streamsOf_inherit_other)

lemma Execute_streams:
  "treeLinked s \<Longrightarrow> children (cmds s c) \<noteq> [] \<or> Func (cmds s c) \<noteq> None \<Longrightarrow>
   Execute s c (arg0 # rest) = (r, s') \<Longrightarrow>
     \<exists>new. visited s' = visited s @ c # new
        \<and> (\<forall>n \<in> set (c # new). streamsOf (cmds s' n) = streamsOf (cmds (inheritStreams s c) c))
        \<and> (\<forall>n. n \<notin> set (c # new) \<longrightarrow> streamsOf (cmds s' n) = streamsOf (cmds s n))"
proof (induction rest arbitrary: s c r s' arg0)
  case Nil
  obtain fs pr where p: "Parse_steps (flagSetOf (inheritStreams (visit s c) c) c) [] = (fs, pr)"
    by (cases "Parse_steps (flagSetOf (inheritStreams (visit s c) c) c) []")
  let ?s2 = "storeFlags (inheritStreams (visit s c) c) c fs"
  show ?case
  proof (cases pr)
    case (Some pe)
    with Nil.prems(2) p have e: "Execute s c [arg0] = parseFailure ?s2 c fs pe"
      by (simp only: Execute_parse_failed)
    with Nil.prems have "s' = snd (parseFailure ?s2 c fs pe)" by simp
    then have "cmds s' = cmds ?s2" "visited s' = visited ?s2" by simp_all
    then show ?thesis by (rule Execute_streams_local)
  next
    case None
    with p have p': "Parse_steps (flagSetOf (inheritStreams (visit s c) c) c) [] = (fs, None)"
      by simp
    from Nil.prems(2) p' show ?thesis
    proof (cases rule: Execute_parsed_cases [where ?arg0.0 = arg0])
      case here
      with Nil.prems have "s' = snd (funcOrHelp ?s2 c fs)" by simp
      then have "cmds s' = cmds ?s2" "visited s' = visited ?s2" by simp_all
      then show ?thesis by (rule Execute_streams_local)
    next
      case helping
      then show ?thesis by simp
    next
      case (child sub)
      then show ?thesis by simp
    qed
  qed
next
  case (Cons tok rest)
  obtain fs pr where p: "Parse_steps (flagSetOf (inheritStreams (visit s c) c) c) (tok # rest) = (fs, pr)"
    by (cases "Parse_steps (flagSetOf (inheritStreams (visit s c) c) c) (tok # rest)")
  let ?s2 = "storeFlags (inheritStreams (visit s c) c) c fs"
  show ?case
  proof (cases pr)
    case (Some pe)
    with Cons.prems(2) p have e: "Execute s c (arg0 # tok # rest) = parseFailure ?s2 c fs pe"
      by (simp only: Execute_parse_failed)
    with Cons.prems have "s' = snd (parseFailure ?s2 c fs pe)" by simp
    then have "cmds s' = cmds ?s2" "visited s' = visited ?s2" by simp_all
    then show ?thesis by (rule Execute_streams_local)
  next
    case None
    with p have p': "Parse_steps (flagSetOf (inheritStreams (visit s c) c) c) (tok # rest) = (fs, None)"
      by simp
    from Cons.prems(2) p' show ?thesis
    proof (cases rule: Execute_parsed_cases [where ?arg0.0 = arg0])
      case here
      with Cons.prems have "s' = snd (funcOrHelp ?s2 c fs)" by simp
      then have "cmds s' = cmds ?s2" "visited s' = visited ?s2" by simp_all
      then show ?thesis by (rule Execute_streams_local)
    next
      case helping
      with Cons.prems have "s' = snd (helpForCommand ?s2 c fs)" by simp
      then have "cmds s' = cmds ?s2" "visited s' = visited ?s2" by simp_all
      then show ?thesis by (rule Execute_streams_local)
    next
      case (child sub)
      from child(3) have "map_of (children (cmds s c)) tok = Some sub" by simp
      with Cons.prems(1) have ps: "parent (cmds s sub) = Some c" by (auto simp: treeLinked_def)
      then have ps2: "parent (cmds ?s2 sub) = Some c" by simp
      have tl: "treeLinked ?s2" using Cons.prems(1) by simp
      from child(4) Cons.prems(3) have ex: "Execute ?s2 sub (tok # rest) = (r, s')" by simp
      have cstr: "streamsOf (cmds ?s2 c) = streamsOf (cmds (inheritStreams s c) c)" by simp
      have other: "\<And>n. n \<noteq> c \<Longrightarrow> streamsOf (cmds ?s2 n) = streamsOf (cmds s n)"
        by (simp add: streamsOf_inherit_other)
      have x: "streamsOf (cmds (inheritStreams ?s2 sub) sub) = streamsOf (cmds (inheritStreams s c) c)"
        using inheritStreams_parent [OF ps2] by simp
      show ?thesis
      proof (cases "children (cmds ?s2 sub) \<noteq> [] \<or> Func (cmds ?s2 sub) \<noteq> None")
        case False
        with ex have "s' = ?s2" by (simp add: Execute_invalid)
        then have "cmds s' = cmds ?s2" "visited s' = visited ?s2" by simp_all
        then show ?thesis by (rule Execute_streams_local)
      next
        case True
        from Cons.IH [OF tl True ex] obtain new where
          v: "visited s' = visited ?s2 @ sub # new"
          and inn: "\<forall>n \<in> set (sub # new). streamsOf (cmds s' n) = streamsOf (cmds (inheritStreams ?s2 sub) sub)"
          and out: "\<forall>n. n \<notin> set (sub # new) \<longrightarrow> streamsOf (cmds s' n) = streamsOf (cmds ?s2 n)"
          by blast
        show ?thesis
        proof (intro exI [of _ "sub # new"] conjI)
          show "visited s' = visited s @ c # sub # new" using v by simp
          show "\<forall>n \<in> set (c # sub # new). streamsOf (cmds s' n) = streamsOf (cmds (inheritStreams s c) c)"
            using inn out x cstr by (metis set_ConsD)
          show "\<forall>n. n \<notin> set (c # sub # new) \<longrightarrow> streamsOf (cmds s' n) = streamsOf (cmds s n)"
            using out other by simp
        qed
      qed
    qed
  qed
qed


lemma streamsOf_inherit_self:
  "streamsOf (cmds (inheritStreams s c) c)
     = (case parent (cmds s c) of None \<Rightarrow> streamsOf (cmds s c) | Some p \<Rightarrow> streamsOf (cmds s p))"
  by (simp add: inheritStreams_def streamsOf_def split: option.splits)

text \<open>
  C8. Registration leaves the stream fields of every command as they were. On every call
  of Execute that passes the precondition checks, on a node with a parent, the node's
  streams are overwritten with the parent's current streams before anything else: Execute
  does what it does in the world where they have been overwritten already, and what the
  node's own streams were before makes no difference. In a tree whose links agree, every
  node visited by an execution ends with the streams that the first node ran with: its
  parent's streams as they were at the call, or, for the root, its own; so streams set on
  the root before the execution reach every visited node, and no other node is touched.
\<close>

theorem stream_inheritance:
  "(\<forall>a. streamsOf (cmds (snd (RegisterChild s0 p0 c0)) a) = streamsOf (cmds s0 a))
   \<and> ((children (cmds s c) \<noteq> [] \<or> Func (cmds s c) \<noteq> None) \<and> parent (cmds s c) = Some p \<longrightarrow>
        Execute s c (arg0 # rest) = Execute (inheritStreams s c) c (arg0 # rest)
        \<and> streamsOf (cmds (inheritStreams s c) c) = streamsOf (cmds s p)
        \<and> (p \<noteq> c \<longrightarrow>
             Execute (s\<lparr>cmds := (cmds s)(c := (cmds s c)\<lparr>stdin := i, stdout := ou, stderr := e\<rparr>)\<rparr>)
                c (arg0 # rest)
               = Execute s c (arg0 # rest)))
   \<and> ((children (cmds s c) \<noteq> [] \<or> Func (cmds s c) \<noteq> None) \<and> treeLinked s \<longrightarrow>
        (\<exists>new. visited (snd (Execute s c (arg0 # rest))) = visited s @ c # new
           \<and> (\<forall>n \<in> set (c # new).
                 streamsOf (cmds (snd (Execute s c (arg0 # rest))) n)
                   = (case parent (cmds s c) of None \<Rightarrow> streamsOf (cmds s c)
                      | Some p \<Rightarrow> streamsOf (cmds s p)))
           \<and> (\<forall>n. n \<notin> set (c # new) \<longrightarrow>
                 streamsOf (cmds (snd (Execute s c (arg0 # rest))) n) = streamsOf (cmds s n))))"
proof -
  have A: "\<forall>a. streamsOf (cmds (snd (RegisterChild s0 p0 c0)) a) = streamsOf (cmds s0 a)"
    by (simp add: RegisterChild_streams)
  have B: "(children (cmds s c) \<noteq> [] \<or> Func (cmds s c) \<noteq> None) \<and> parent (cmds s c) = Some p \<longrightarrow>
        Execute s c (arg0 # rest) = Execute (inheritStreams s c) c (arg0 # rest)
        \<and> streamsOf (cmds (inheritStreams s c) c) = streamsOf (cmds s p)
        \<and> (p \<noteq> c \<longrightarrow>
             Execute (s\<lparr>cmds := (cmds s)(c := (cmds s c)\<lparr>stdin := i, stdout := ou, stderr := e\<rparr>)\<rparr>)
                c (arg0 # rest)
               = Execute s c (arg0 # rest))"
    by (auto simp: Execute_after_inherit inheritStreams_parent Execute_own_streams_irrelevant)
  have C: "(children (cmds s c) \<noteq> [] \<or> Func (cmds s c) \<noteq> None) \<and> treeLinked s \<longrightarrow>
        (\<exists>new. visited (snd (Execute s c (arg0 # rest))) = visited s @ c # new
           \<and> (\<forall>n \<in> set (c # new).
                 streamsOf (cmds (snd (Execute s c (arg0 # rest))) n)
                   = (case parent (cmds s c) of None \<Rightarrow> streamsOf (cmds s c)
                      | Some p \<Rightarrow> streamsOf (cmds s p)))
           \<and> (\<forall>n. n \<notin> set (c # new) \<longrightarrow>
                 streamsOf (cmds (snd (Execute s c (arg0 # rest))) n) = streamsOf (cmds s n)))"
  proof
    assume a: "(children (cmds s c) \<noteq> [] \<or> Func (cmds s c) \<noteq> None) \<and> treeLinked s"
    have e: "Execute s c (arg0 # rest) = (fst (Execute s c (arg0 # rest)), snd (Execute s c (arg0 # rest)))"
      by simp
    from a have t: "treeLinked s" and v: "children (cmds s c) \<noteq> [] \<or> Func (cmds s c) \<noteq> None"
      by simp_all
    show "\<exists>new. visited (snd (Execute s c (arg0 # rest))) = visited s @ c # new
           \<and> (\<forall>n \<in> set (c # new).
                 streamsOf (cmds (snd (Execute s c (arg0 # rest))) n)
                   = (case parent (cmds s c) of None \<Rightarrow> streamsOf (cmds s c)
                      | Some p \<Rightarrow> streamsOf (cmds s p)))
           \<and> (\<forall>n. n \<notin> set (c # new) \<longrightarrow>
                 streamsOf (cmds (snd (Execute s c (arg0 # rest))) n) = streamsOf (cmds s n))"
      using Execute_streams [OF t v e] unfolding streamsOf_inherit_self .
  qed
  show ?thesis by (rule conjI [OF A conjI [OF B C]])
qed

lemma treeLinked_toolWorld: "treeLinked toolWorld"
  by (auto simp: treeLinked_def toolWorld_def zeroCommand_def rootCommand_def split: if_splits)

lemma toolWorld_run_visited: "visited (snd (Execute toolWorld 0 [''prog'', ''run''])) = [0, 5]"
  by code_simp

lemma toolWorld_run_streams:
  "streamsOf (cmds (snd (Execute toolWorld 0 [''prog'', ''run''])) 5)
     = (Some OsStdin, Some OsStdout, Some OsStderr)"
  by code_simp

lemma toolWorld_streams:
  "streamsOf (cmds toolWorld 0) = (Some OsStdin, Some OsStdout, Some OsStderr)"
  "streamsOf (cmds toolWorld 5) = (None, None, None)"
  "parent (cmds toolWorld 5) = Some 0"
  "parent (cmds toolWorld 0) = None"
  by (simp_all add: toolWorld_def streamsOf_def zeroCommand_def rootCommand_def)

theorem stream_inheritance_witness:
  "visited (snd (Execute toolWorld 0 [''prog'', ''run''])) = [0, 5]
   \<and> streamsOf (cmds toolWorld 5) = (None, None, None)
   \<and> streamsOf (cmds (snd (Execute toolWorld 0 [''prog'', ''run''])) 5) = streamsOf (cmds toolWorld 0)
   \<and> Execute toolWorld 5 [''run''] = Execute (inheritStreams toolWorld 5) 5 [''run'']
   \<and> Execute (toolWorld\<lparr>cmds := (cmds toolWorld)
          (5 := (cmds toolWorld 5)\<lparr>stdin := None, stdout := Some (Stream 7), stderr := None\<rparr>)\<rparr>)
         5 [''run''] = Execute toolWorld 5 [''run'']
   \<and> streamsOf (cmds (snd (RegisterChild freshWorld 0 2)) 2) = (None, None, None)"
  using stream_inheritance [where s = toolWorld and c = 5 and p = 0 and ?arg0.0 = "''run''"
      and rest = "[]" and i = None and ou = "Some (Stream 7)" and e = None
      and ?s0.0 = freshWorld and ?p0.0 = 0 and ?c0.0 = 2]
    stream_inheritance [where s = toolWorld and c = 0 and p = 0 and ?arg0.0 = "''prog''"
      and rest = "[''run'']" and ?s0.0 = freshWorld and ?p0.0 = 0 and ?c0.0 = 2]
  by (simp add: toolWorld_run_visited toolWorld_run_streams toolWorld_streams toolWorld_root
        toolWorld_run_node treeLinked_toolWorld)
     (simp add: freshWorld_def streamsOf_def zeroCommand_def)


end
